theory Spec2Isabelle
  imports Main "HOL-Library.Product_Lexorder"
begin

section \<open>Regular-expression matching by backtracking\<close>

text \<open>
  \<^verbatim>\<open>parse_date_from_filename\<close> matches a file name against
  \<^verbatim>\<open>wallpaper-[^-]+-(\d{4}-\d{2}-\d{2})\.png\<close> with \<^verbatim>\<open>re.match\<close>, and
  \<^verbatim>\<open>datetime.strptime\<close> matches the captured text against the regular expression it
  builds from \<^verbatim>\<open>%Y-%m-%d\<close>. Both are modelled with one small set of combinators.

  A matcher maps the text still to be read to the list of all ways of matching a prefix
  of it, each a pair of the matched text and the remainder, in the order in which a
  backtracking engine tries them. \<^verbatim>\<open>re.match\<close> anchors at the start only and returns
  the first way that lets the whole pattern succeed.

  A Python \<^verbatim>\<open>str\<close> is a sequence of code points; a \<^typ>\<open>string\<close> here is a list of
  \<^typ>\<open>char\<close>, the code points below 256. Among these the class \<^verbatim>\<open>\d\<close> is exactly
  \<^verbatim>\<open>0\<close> to \<^verbatim>\<open>9\<close>.
\<close>

type_synonym matcher = "string \<Rightarrow> (string \<times> string) list"

definition re_lit :: "string \<Rightarrow> matcher" where
  "re_lit p s = (if take (length p) s = p then [(p, drop (length p) s)] else [])"

definition re_class :: "(char \<Rightarrow> bool) \<Rightarrow> matcher" where
  "re_class P s = (case s of [] \<Rightarrow> [] | c # r \<Rightarrow> if P c then [([c], r)] else [])"

text \<open>
  Match \<open>a\<close>, then go on with \<open>k\<close> on the matched text and the remainder; the ways
  of going on after an earlier match of \<open>a\<close> come before those after a later one.
\<close>

definition re_then :: "matcher \<Rightarrow> (string \<Rightarrow> string \<Rightarrow> 'r list) \<Rightarrow> string \<Rightarrow> 'r list" where
  "re_then a k s = concat (map (\<lambda>(x, r). k x r) (a s))"

definition re_seq :: "matcher \<Rightarrow> matcher \<Rightarrow> matcher" where
  "re_seq a b = re_then a (\<lambda>x r. re_then b (\<lambda>y r'. [(x @ y, r')]) r)"

definition re_alt :: "matcher \<Rightarrow> matcher \<Rightarrow> matcher" where
  "re_alt a b s = a s @ b s"

text \<open>\<^verbatim>\<open>[...]+\<close> is greedy: the longer matches are tried first.\<close>

fun re_plus :: "(char \<Rightarrow> bool) \<Rightarrow> matcher" where
  "re_plus P [] = []"
| "re_plus P (c # r) =
     (if P c then map (\<lambda>(x, r'). (c # x, r')) (re_plus P r) @ [([c], r)] else [])"

fun re_rep :: "nat \<Rightarrow> matcher \<Rightarrow> matcher" where
  "re_rep 0 a = (\<lambda>s. [([], s)])"
| "re_rep (Suc n) a = re_seq a (re_rep n a)"

definition is_digit :: "char \<Rightarrow> bool" where
  "is_digit c = (c \<in> set ''0123456789'')"

definition in_range :: "char \<Rightarrow> char \<Rightarrow> char \<Rightarrow> bool" where
  "in_range lo hi c = (of_char lo \<le> (of_char c :: nat) \<and> (of_char c :: nat) \<le> of_char hi)"

definition first_match :: "'a list \<Rightarrow> 'a option" where
  "first_match rs = (case rs of [] \<Rightarrow> None | r # _ \<Rightarrow> Some r)"

section \<open>Dates and times\<close>

text \<open>
  A \<^verbatim>\<open>datetime\<close> is a point of the proleptic Gregorian calendar with microsecond
  resolution and no time zone. It is represented by its day number (Python's
  \<^verbatim>\<open>toordinal()\<close>, day 1 being 0001-01-01) and the microseconds since midnight, and
  Python orders datetimes as these pairs are ordered lexicographically.
  The calendar arithmetic follows \<^verbatim>\<open>datetime.py\<close>.
\<close>

type_synonym datetime = "int \<times> int"

definition toordinal :: "datetime \<Rightarrow> int" where
  "toordinal dt = fst dt"

definition time_of_day :: "datetime \<Rightarrow> int" where
  "time_of_day dt = snd dt"

definition usec_per_day :: int where
  "usec_per_day = 86400000000"

definition MINYEAR :: int where "MINYEAR = 1"
definition MAXYEAR :: int where "MAXYEAR = 9999"
definition MAXORDINAL :: int where "MAXORDINAL = 3652059"

definition valid_datetime :: "datetime \<Rightarrow> bool" where
  "valid_datetime dt =
     (1 \<le> toordinal dt \<and> toordinal dt \<le> MAXORDINAL \<and>
      0 \<le> time_of_day dt \<and> time_of_day dt < usec_per_day)"

definition is_leap :: "int \<Rightarrow> bool" where
  "is_leap y = (y mod 4 = 0 \<and> (y mod 100 \<noteq> 0 \<or> y mod 400 = 0))"

definition days_before_year :: "int \<Rightarrow> int" where
  "days_before_year year =
     (let y = year - 1 in y * 365 + y div 4 - y div 100 + y div 400)"

definition days_in_month :: "int \<Rightarrow> int \<Rightarrow> int" where
  "days_in_month year month =
     (if month = 2 \<and> is_leap year then 29
      else [0, 31, 28, 31, 30, 31, 30, 31, 31, 30, 31, 30, 31] ! nat month)"

definition days_before_month :: "int \<Rightarrow> int \<Rightarrow> int" where
  "days_before_month year month =
     [0, 0, 31, 59, 90, 120, 151, 181, 212, 243, 273, 304, 334] ! nat month
       + (if month > 2 \<and> is_leap year then 1 else 0)"

definition ymd2ord :: "int \<Rightarrow> int \<Rightarrow> int \<Rightarrow> int" where
  "ymd2ord year month day =
     days_before_year year + days_before_month year month + day"

text \<open>
  The checks of the \<^verbatim>\<open>date\<close> constructor: outside them it raises
  \<^verbatim>\<open>ValueError\<close>.
\<close>

definition valid_date :: "int \<Rightarrow> int \<Rightarrow> int \<Rightarrow> bool" where
  "valid_date year month day =
     (MINYEAR \<le> year \<and> year \<le> MAXYEAR \<and> 1 \<le> month \<and> month \<le> 12 \<and>
      1 \<le> day \<and> day \<le> days_in_month year month)"

text \<open>\<^verbatim>\<open>datetime(year, month, day)\<close>: midnight of that day.\<close>

definition datetime_ymd :: "int \<Rightarrow> int \<Rightarrow> int \<Rightarrow> datetime" where
  "datetime_ymd year month day = (ymd2ord year month day, 0)"

datatype exn = ValueError | OverflowError

text \<open>
  \<^verbatim>\<open>int\<close> of a text of digits, possibly after blanks (the one form of blank the
  \<^verbatim>\<open>%d\<close> directive lets through is a leading space).
\<close>

definition digit_val :: "char \<Rightarrow> int" where
  "digit_val c = int (of_char c) - 48"

definition py_int :: "string \<Rightarrow> int" where
  "py_int s =
     foldl (\<lambda>a c. 10 * a + digit_val c) 0 (dropWhile (\<lambda>c. c = CHR '' '') s)"

text \<open>
  The regular expression \<^verbatim>\<open>_strptime\<close> compiles for \<^verbatim>\<open>%Y-%m-%d\<close>:
  \<^verbatim>\<open>(?P<Y>\d\d\d\d)-(?P<m>1[0-2]|0[1-9]|[1-9])-(?P<d>3[0-1]|[1-2]\d|0[1-9]|[1-9]| [1-9])\<close>.
\<close>

definition re_Y :: matcher where
  "re_Y = re_rep 4 (re_class is_digit)"

definition re_m :: matcher where
  "re_m =
     re_alt (re_seq (re_lit ''1'') (re_class (in_range CHR ''0'' CHR ''2'')))
    (re_alt (re_seq (re_lit ''0'') (re_class (in_range CHR ''1'' CHR ''9'')))
            (re_class (in_range CHR ''1'' CHR ''9'')))"

definition re_d :: matcher where
  "re_d =
     re_alt (re_seq (re_lit ''3'') (re_class (in_range CHR ''0'' CHR ''1'')))
    (re_alt (re_seq (re_class (in_range CHR ''1'' CHR ''2'')) (re_class is_digit))
    (re_alt (re_seq (re_lit ''0'') (re_class (in_range CHR ''1'' CHR ''9'')))
    (re_alt (re_class (in_range CHR ''1'' CHR ''9''))
            (re_seq (re_lit '' '') (re_class (in_range CHR ''1'' CHR ''9''))))))"

text \<open>
  All matches of the format's regular expression, as the three groups and the text left
  over, in the engine's order.
\<close>

definition strptime_matches :: "string \<Rightarrow> (string \<times> string \<times> string \<times> string) list" where
  "strptime_matches =
     re_then re_Y (\<lambda>y. re_then (re_lit ''-'') (\<lambda>_.
     re_then re_m (\<lambda>m. re_then (re_lit ''-'') (\<lambda>_.
     re_then re_d (\<lambda>d r. [(y, m, d, r)])))))"

text \<open>
  \<^verbatim>\<open>datetime.strptime(data_string, '%Y-%m-%d')\<close>: \<^verbatim>\<open>ValueError\<close> when the text does
  not match the format, when text remains after the match, and when the numbers are no
  date.
\<close>

definition strptime :: "string \<Rightarrow> exn + datetime" where
  "strptime data_string =
     (case first_match (strptime_matches data_string) of
        None \<Rightarrow> Inl ValueError
      | Some (y, m, d, rest) \<Rightarrow>
          if rest \<noteq> [] then Inl ValueError
          else if valid_date (py_int y) (py_int m) (py_int d)
               then Inr (datetime_ymd (py_int y) (py_int m) (py_int d))
               else Inl ValueError)"

section \<open>The file-name parser\<close>

text \<open>
  The texts captured by the group of
  \<^verbatim>\<open>wallpaper-[^-]+-(\d{4}-\d{2}-\d{2})\.png\<close>, over all ways of matching a prefix of
  the file name, in the engine's order.
\<close>

definition re_date_group :: matcher where
  "re_date_group =
     re_seq (re_rep 4 (re_class is_digit))
    (re_seq (re_lit ''-'')
    (re_seq (re_rep 2 (re_class is_digit))
    (re_seq (re_lit ''-'')
            (re_rep 2 (re_class is_digit)))))"

definition pattern_matches :: "string \<Rightarrow> string list" where
  "pattern_matches =
     re_then (re_lit ''wallpaper-'') (\<lambda>_.
     re_then (re_plus (\<lambda>c. c \<noteq> CHR ''-'')) (\<lambda>_.
     re_then (re_lit ''-'') (\<lambda>_.
     re_then re_date_group (\<lambda>g.
     re_then (re_lit ''.png'') (\<lambda>_ _. [g])))))"

text \<open>
  Only \<^verbatim>\<open>ValueError\<close> is caught; any other exception of \<^verbatim>\<open>strptime\<close> would leave
  the function.
\<close>

definition parse_date_from_filename :: "string \<Rightarrow> exn + datetime option" where
  "parse_date_from_filename filename =
     (case first_match (pattern_matches filename) of
        Some g \<Rightarrow> (case strptime g of
                     Inr dt \<Rightarrow> Inr (Some dt)
                   | Inl ValueError \<Rightarrow> Inr None
                   | Inl e \<Rightarrow> Inl e)
      | None \<Rightarrow> Inr None)"

text \<open>
  Follows the spec's words, for comparison with the parser: the whole name is
  \<^verbatim>\<open>wallpaper-<id>-<YYYY-MM-DD>.png\<close>, \<^verbatim>\<open><id>\<close> one or more characters other than
  a hyphen, and the digits are a calendar date.
\<close>

definition date_shape :: "string \<Rightarrow> string \<Rightarrow> string \<Rightarrow> bool" where
  "date_shape Y M D =
     (length Y = 4 \<and> length M = 2 \<and> length D = 2 \<and> list_all is_digit (Y @ M @ D))"


section \<open>The clock, the directory and standard output\<close>

text \<open>
  \<^verbatim>\<open>timedelta(days=n)\<close> raises \<^verbatim>\<open>OverflowError\<close> beyond 999999999 days, and so does
  subtracting it from a datetime when the result leaves the years 1 to 9999.
\<close>

definition timedelta :: "int \<Rightarrow> exn + int" where
  "timedelta days =
     (if - 999999999 \<le> days \<and> days \<le> 999999999 then Inr days else Inl OverflowError)"

definition datetime_sub :: "datetime \<Rightarrow> int \<Rightarrow> exn + datetime" where
  "datetime_sub dt days =
     (let ord = toordinal dt - days
      in if 0 < ord \<and> ord \<le> MAXORDINAL then Inr (ord, time_of_day dt)
         else Inl OverflowError)"

text \<open>\<^verbatim>\<open>now - timedelta(days=max_age_days)\<close>, for a clock reading \<open>now\<close>.\<close>

definition cutoff_of :: "datetime \<Rightarrow> int \<Rightarrow> exn + datetime" where
  "cutoff_of now max_age_days =
     (case timedelta max_age_days of
        Inl e \<Rightarrow> Inl e
      | Inr days \<Rightarrow> datetime_sub now days)"

text \<open>\<^verbatim>\<open>(a - b).days\<close>: the difference in whole days, rounded down.\<close>

definition days_between :: "datetime \<Rightarrow> datetime \<Rightarrow> int" where
  "days_between a b =
     (toordinal a * usec_per_day + time_of_day a
        - (toordinal b * usec_per_day + time_of_day b)) div usec_per_day"

text \<open>
  A directory is the list of its entries in the order in which the operating system
  enumerates them. What \<^verbatim>\<open>unlink\<close> would do to an entry is a matter of the environment
  (permissions, the entry being a directory, a read-only file system): each entry carries
  the error \<^verbatim>\<open>unlink\<close> would raise, if any. A path that exists without being a
  directory has nothing to enumerate and behaves as an empty directory.
\<close>

datatype os_error = ENOENT | EACCES | EPERM | EISDIR | EBUSY | EROFS

record entry =
  ename :: string
  unlink_error :: "os_error option"

type_synonym path = string

text \<open>A \<^verbatim>\<open>Path\<close> of a directory entry: the directory and the name.\<close>

type_synonym file_path = "path \<times> string"

text \<open>The lines the program prints, by the statement that prints them.\<close>

datatype line =
    NoOldFiles int
  | Announce bool nat datetime
  | FileLine string datetime int
  | DeleteError string os_error
  | DeletedSummary nat
  | DryRunSummary nat
  | Count nat
  | DirMissing path
  | CleanupError exn

text \<open>
  The world the program runs in: the readings the clock gives to successive calls of
  \<^verbatim>\<open>datetime.now()\<close> and the number of calls so far, the directories, the working
  directory, what has been printed, and every call of \<^verbatim>\<open>unlink\<close> so far with its
  outcome (\<open>None\<close> for success).
\<close>

record world =
  clock :: "nat \<Rightarrow> datetime"
  ticks :: nat
  dirs :: "path \<Rightarrow> entry list option"
  cwd :: path
  stdout :: "line list"
  unlink_log :: "(file_path \<times> os_error option) list"

definition now :: "world \<Rightarrow> datetime \<times> world" where
  "now w = (clock w (ticks w), w\<lparr>ticks := Suc (ticks w)\<rparr>)"

definition print :: "line \<Rightarrow> world \<Rightarrow> world" where
  "print l w = w\<lparr>stdout := stdout w @ [l]\<rparr>"

definition path_exists :: "world \<Rightarrow> path \<Rightarrow> bool" where
  "path_exists w p = (dirs w p \<noteq> None)"

definition listing :: "world \<Rightarrow> path \<Rightarrow> entry list" where
  "listing w p = (case dirs w p of None \<Rightarrow> [] | Some es \<Rightarrow> es)"

text \<open>
  The shell pattern \<^verbatim>\<open>wallpaper-*.png\<close>: the name starts with \<^verbatim>\<open>wallpaper-\<close> and what
  follows ends with \<^verbatim>\<open>.png\<close>.
\<close>

definition glob_match :: "string \<Rightarrow> bool" where
  "glob_match name =
     (take 10 name = ''wallpaper-'' \<and> 14 \<le> length name \<and>
      drop (length name - 4) name = ''.png'')"

definition glob :: "path \<Rightarrow> world \<Rightarrow> file_path list" where
  "glob directory w =
     map (\<lambda>e. (directory, ename e)) (filter (\<lambda>e. glob_match (ename e)) (listing w directory))"

text \<open>
  \<^verbatim>\<open>Path.unlink\<close>: a missing entry is \<^verbatim>\<open>ENOENT\<close>; otherwise the entry's own error, or
  the entry is removed.
\<close>

definition unlink_outcome :: "world \<Rightarrow> file_path \<Rightarrow> os_error option" where
  "unlink_outcome w fp =
     (case find (\<lambda>e. ename e = snd fp) (listing w (fst fp)) of
        None \<Rightarrow> Some ENOENT
      | Some e \<Rightarrow> unlink_error e)"

definition unlink :: "file_path \<Rightarrow> world \<Rightarrow> os_error option \<times> world" where
  "unlink fp w =
     (let res = unlink_outcome w fp;
          w1 = w\<lparr>unlink_log := unlink_log w @ [(fp, res)]\<rparr>
      in case res of
           Some err \<Rightarrow> (Some err, w1)
         | None \<Rightarrow>
             (None, w1\<lparr>dirs := (dirs w)(fst fp \<mapsto>
                        filter (\<lambda>e. ename e \<noteq> snd fp) (listing w (fst fp)))\<rparr>))"

section \<open>The selector\<close>

text \<open>The loop of \<^verbatim>\<open>find_old_wallpapers\<close> over the names the pattern yields.\<close>

fun select_old ::
  "datetime \<Rightarrow> file_path list \<Rightarrow> (file_path \<times> datetime) list
     \<Rightarrow> exn + (file_path \<times> datetime) list" where
  "select_old cutoff_date [] old_files = Inr old_files"
| "select_old cutoff_date (file_path # rest) old_files =
     (case parse_date_from_filename (snd file_path) of
        Inl e \<Rightarrow> Inl e
      | Inr None \<Rightarrow> select_old cutoff_date rest old_files
      | Inr (Some file_date) \<Rightarrow>
          if file_date < cutoff_date
          then select_old cutoff_date rest (old_files @ [(file_path, file_date)])
          else select_old cutoff_date rest old_files)"

definition find_old_wallpapers ::
  "path \<Rightarrow> int \<Rightarrow> world \<Rightarrow> (exn + (file_path \<times> datetime) list) \<times> world" where
  "find_old_wallpapers directory max_age_days w =
     (let (t, w1) = now w
      in case cutoff_of t max_age_days of
           Inl e \<Rightarrow> (Inl e, w1)
         | Inr cutoff_date \<Rightarrow>
             (case select_old cutoff_date (glob directory w1) [] of
                Inl e \<Rightarrow> (Inl e, w1)
              | Inr old_files \<Rightarrow> (Inr (sort_key snd old_files), w1)))"

section \<open>The orchestrator\<close>

text \<open>The loop of \<^verbatim>\<open>cleanup_old_wallpapers\<close> over the candidates.\<close>

fun delete_files ::
  "bool \<Rightarrow> (file_path \<times> datetime) list \<Rightarrow> nat \<Rightarrow> world \<Rightarrow> nat \<times> world" where
  "delete_files dry_run [] deleted_count w = (deleted_count, w)"
| "delete_files dry_run ((file_path, file_date) # rest) deleted_count w =
     (let (t, w1) = now w;
          age_days = days_between t file_date;
          w2 = print (FileLine (snd file_path) file_date age_days) w1
      in if \<not> dry_run
         then (case unlink file_path w2 of
                 (None, w3) \<Rightarrow> delete_files dry_run rest (deleted_count + 1) w3
               | (Some e, w3) \<Rightarrow>
                   delete_files dry_run rest deleted_count
                     (print (DeleteError (snd file_path) e) w3))
         else delete_files dry_run rest (deleted_count + 1) w2)"

definition cleanup_old_wallpapers ::
  "path option \<Rightarrow> int \<Rightarrow> bool \<Rightarrow> world \<Rightarrow> (exn + nat) \<times> world" where
  "cleanup_old_wallpapers directory max_age_days dry_run w =
     (let directory = (case directory of None \<Rightarrow> cwd w | Some d \<Rightarrow> d)
      in case find_old_wallpapers directory max_age_days w of
           (Inl e, w1) \<Rightarrow> (Inl e, w1)
         | (Inr old_files, w1) \<Rightarrow>
             if old_files = [] then (Inr 0, print (NoOldFiles max_age_days) w1)
             else
               (let (t, w2) = now w1
                in case cutoff_of t max_age_days of
                     Inl e \<Rightarrow> (Inl e, w2)
                   | Inr cutoff_date \<Rightarrow>
                       (let w3 = print (Announce dry_run (length old_files) cutoff_date) w2;
                            (deleted_count, w4) = delete_files dry_run old_files 0 w3;
                            w5 = (if \<not> dry_run \<and> deleted_count > 0
                                  then print (DeletedSummary deleted_count) w4
                                  else if dry_run
                                  then print (DryRunSummary deleted_count) w4
                                  else w4)
                        in (Inr deleted_count, w5))))"

section \<open>The entry point\<close>

text \<open>
  The options as \<^verbatim>\<open>argparse\<close> delivers them. \<^verbatim>\<open>main\<close> ends in \<^verbatim>\<open>sys.exit\<close>: its
  result is the exit status and the world it leaves. An interrupt from the keyboard is
  an event from outside and has no place in this model.
\<close>

record args =
  arg_max_age :: int
  arg_directory :: "path option"
  arg_dry_run :: bool
  arg_quiet :: bool

text \<open>The \<^verbatim>\<open>try\<close> block of \<^verbatim>\<open>main\<close>.\<close>

definition run_cleanup :: "args \<Rightarrow> world \<Rightarrow> nat \<times> world" where
  "run_cleanup a w =
     (case cleanup_old_wallpapers (arg_directory a) (arg_max_age a) (arg_dry_run a) w of
        (Inr deleted_count, w1) \<Rightarrow>
          (0, if arg_quiet a then print (Count deleted_count) w1 else w1)
      | (Inl e, w1) \<Rightarrow> (1, print (CleanupError e) w1))"

definition main :: "args \<Rightarrow> world \<Rightarrow> nat \<times> world" where
  "main a w =
     (case arg_directory a of
        Some d \<Rightarrow>
          if \<not> path_exists w d then (1, print (DirMissing d) w) else run_cleanup a w
      | None \<Rightarrow> run_cleanup a w)"

section \<open>Auxiliary notions for the statements\<close>

text \<open>What the loop of the selector collects from the names it is given, in closed form.\<close>

definition candidates :: "datetime \<Rightarrow> file_path list \<Rightarrow> (file_path \<times> datetime) list" where
  "candidates cutoff_date fps =
     concat (map (\<lambda>fp. case parse_date_from_filename (snd fp) of
                          Inr (Some d) \<Rightarrow> if d < cutoff_date then [(fp, d)] else []
                        | _ \<Rightarrow> []) fps)"

text \<open>A name qualifies when it carries a date strictly before the cutoff.\<close>

definition qualifies :: "datetime \<Rightarrow> string \<Rightarrow> bool" where
  "qualifies cutoff_date name =
     (case parse_date_from_filename name of
        Inr (Some d) \<Rightarrow> d < cutoff_date
      | _ \<Rightarrow> False)"

text \<open>The summary lines of the orchestrator.\<close>

definition is_summary :: "line \<Rightarrow> bool" where
  "is_summary l = (case l of DeletedSummary _ \<Rightarrow> True | DryRunSummary _ \<Rightarrow> True | _ \<Rightarrow> False)"

text \<open>
  Example worlds: the clock stands at \<open>t\<close>, the directory \<^verbatim>\<open>/pictures\<close> holds the
  entries \<open>es\<close> and is the working directory, nothing has been printed or unlinked.
\<close>

definition world_at :: "datetime \<Rightarrow> entry list \<Rightarrow> world" where
  "world_at t es =
     \<lparr>clock = (\<lambda>_. t), ticks = 0, dirs = [''/pictures'' \<mapsto> es], cwd = ''/pictures'',
      stdout = [], unlink_log = []\<rparr>"

definition plain_file :: "string \<Rightarrow> entry" where
  "plain_file name = \<lparr>ename = name, unlink_error = None\<rparr>"

definition protected_file :: "string \<Rightarrow> entry" where
  "protected_file name = \<lparr>ename = name, unlink_error = Some EACCES\<rparr>"

text \<open>
  The scenario of the specification, at noon of 2024-04-24: an old wallpaper, one dated in
  the future, and a file that is no wallpaper.
\<close>

definition scenario_world :: world where
  "scenario_world =
     world_at (ymd2ord 2024 4 24, 43200000000)
       [plain_file ''wallpaper-laptop-2020-01-01.png'',
        plain_file ''wallpaper-phone-2099-01-01.png'',
        plain_file ''notes.txt'']"

text \<open>A wallpaper dated a week after the clock reading.\<close>

definition future_world :: world where
  "future_world =
     world_at (ymd2ord 2024 4 24, 43200000000) [plain_file ''wallpaper-phone-2024-05-01.png'']"



text \<open>The files a part of the log of \<^verbatim>\<open>unlink\<close> calls records as deleted.\<close>

definition deleted_files :: "(file_path \<times> os_error option) list \<Rightarrow> file_path list" where
  "deleted_files log = map fst (filter (\<lambda>x. snd x = None) log)"

text \<open>The failed calls of a part of the log, by file name and error.\<close>

definition failed_unlinks :: "(file_path \<times> os_error option) list \<Rightarrow> (string \<times> os_error) list" where
  "failed_unlinks log =
     List.map_filter (\<lambda>x. case snd x of None \<Rightarrow> None | Some e \<Rightarrow> Some (snd (fst x), e)) log"

text \<open>The warnings among printed lines, by file name and error.\<close>

definition failure_lines :: "line list \<Rightarrow> (string \<times> os_error) list" where
  "failure_lines ls =
     List.map_filter (\<lambda>l. case l of DeleteError name e \<Rightarrow> Some (name, e) | _ \<Rightarrow> None) ls"

text \<open>The per-file lines among printed lines, by file name and date.\<close>

definition file_lines :: "line list \<Rightarrow> (string \<times> datetime) list" where
  "file_lines ls =
     List.map_filter (\<lambda>l. case l of FileLine name d _ \<Rightarrow> Some (name, d) | _ \<Rightarrow> None) ls"

text \<open>The line the loop prints for a file, from the world at the start of the round.\<close>

definition file_line :: "world \<Rightarrow> file_path \<Rightarrow> datetime \<Rightarrow> line" where
  "file_line w fp fd = FileLine (snd fp) fd (days_between (clock w (ticks w)) fd)"

text \<open>The directory a run works on: the one given, or the working directory.\<close>

definition target_directory :: "path option \<Rightarrow> world \<Rightarrow> path" where
  "target_directory directory w = (case directory of None \<Rightarrow> cwd w | Some d \<Rightarrow> d)"

text \<open>An old wallpaper that cannot be deleted, alone and beside one that can.\<close>

definition protected_world :: world where
  "protected_world =
     world_at (ymd2ord 2024 4 24, 43200000000)
       [protected_file ''wallpaper-laptop-2020-01-01.png'']"

definition mixed_world :: world where
  "mixed_world =
     world_at (ymd2ord 2024 4 24, 43200000000)
       [protected_file ''wallpaper-a-2019-01-01.png'',
        plain_file ''wallpaper-laptop-2020-01-01.png'',
        plain_file ''notes.txt'']"

section \<open>Languages of matchers\<close>

text \<open>
  A matcher matches the language \<open>L\<close> when its results on a text are exactly the ways of
  splitting the text into a word of \<open>L\<close> and a remainder.
\<close>

definition matches_lang :: "matcher \<Rightarrow> (string \<Rightarrow> bool) \<Rightarrow> bool" where
  "matches_lang a L = (\<forall>x r s. ((x, r) \<in> set (a s)) = (L x \<and> s = x @ r))"

section \<open>Properties of the matchers\<close>

lemma re_then_Nil: "a s = [] \<Longrightarrow> re_then a k s = []"
  by (simp add: re_then_def)

lemma re_then_single: "a s = [(x, r)] \<Longrightarrow> re_then a k s = k x r"
  by (simp add: re_then_def)

lemma re_then_lit_Cons: "re_then (re_lit [c]) k (c' # s) = (if c' = c then k [c] s else [])"
  by (simp add: re_then_def re_lit_def)

lemma re_then_lit_Nil: "re_then (re_lit [c]) k [] = []"
  by (simp add: re_then_def re_lit_def)

lemma re_then_class_Cons: "re_then (re_class P) k (c # s) = (if P c then k [c] s else [])"
  by (simp add: re_then_def re_class_def)

lemma re_then_class_Nil: "re_then (re_class P) k [] = []"
  by (simp add: re_then_def re_class_def)

lemma re_then_alt: "re_then (re_alt a b) k s = re_then a k s @ re_then b k s"
  by (simp add: re_then_def re_alt_def)

lemma re_then_seq: "re_then (re_seq a b) k s = re_then a (\<lambda>x. re_then b (\<lambda>y. k (x @ y))) s"
proof -
  have "concat (map (\<lambda>(x, r). k x r) (concat (map (\<lambda>(x, r). concat (map (\<lambda>(y, r'). [(x @ y, r')]) (b r))) xs)))
      = concat (map (\<lambda>(x, r). concat (map (\<lambda>(y, r'). k (x @ y) r') (b r))) xs)" for xs
  proof (induction xs)
    case Nil show ?case by simp
  next
    case (Cons p xs)
    obtain x r where p: "p = (x, r)" by (cases p)
    have "concat (map (\<lambda>(x, r). k x r) (concat (map (\<lambda>(y, r'). [(x @ y, r')]) ys)))
        = concat (map (\<lambda>(y, r'). k (x @ y) r') ys)" for ys
      by (induction ys) auto
    with Cons p show ?case by simp
  qed
  then show ?thesis by (simp add: re_then_def re_seq_def)
qed

lemma re_then_rep_0: "re_then (re_rep 0 a) k s = k [] s"
  by (simp add: re_then_def)

lemma re_then_rep_Suc: "re_then (re_rep (Suc n) a) k s = re_then a (\<lambda>x. re_then (re_rep n a) (\<lambda>y. k (x @ y))) s"
  by (simp add: re_then_seq)

lemma set_re_then: "z \<in> set (re_then a k s) \<longleftrightarrow> (\<exists>x r. (x, r) \<in> set (a s) \<and> z \<in> set (k x r))"
  by (auto simp: re_then_def)

lemma set_re_lit: "(x, r) \<in> set (re_lit p s) \<longleftrightarrow> x = p \<and> s = p @ r"
  by (auto simp: re_lit_def) (metis append_take_drop_id)

lemma set_re_plus: "(x, r) \<in> set (re_plus P s) \<longleftrightarrow> x \<noteq> [] \<and> list_all P x \<and> s = x @ r"
proof (induction s arbitrary: x)
  case Nil then show ?case by auto
next
  case (Cons c s)
  show ?case
  proof (cases "P c")
    case False then show ?thesis by (cases x) auto
  next
    case True
    show ?thesis
    proof (cases x)
      case Nil then show ?thesis using True by auto
    next
      case (Cons d y)
      then show ?thesis using True Cons.IH[of y] by (cases y) auto
    qed
  qed
qed

lemma is_digit_cases:
  "is_digit c \<Longrightarrow> c = CHR ''0'' \<or> c = CHR ''1'' \<or> c = CHR ''2'' \<or> c = CHR ''3'' \<or> c = CHR ''4''
     \<or> c = CHR ''5'' \<or> c = CHR ''6'' \<or> c = CHR ''7'' \<or> c = CHR ''8'' \<or> c = CHR ''9''"
  by (auto simp: is_digit_def)

lemma is_digit_not_hyphen: "is_digit c \<Longrightarrow> c \<noteq> CHR ''-''"
  by (auto simp: is_digit_def)

lemma digit_val_range: "is_digit c \<Longrightarrow> 0 \<le> digit_val c \<and> digit_val c \<le> 9"
  by (auto simp: digit_val_def dest!: is_digit_cases)

lemma py_int_2: "is_digit a \<Longrightarrow> py_int [a, b] = 10 * digit_val a + digit_val b"
  by (auto simp: py_int_def is_digit_def)

lemma py_int_1: "is_digit a \<Longrightarrow> py_int [a] = digit_val a"
  by (auto simp: py_int_def is_digit_def)

lemma py_int_4: "is_digit a \<Longrightarrow> py_int [a, b, c, d] = 1000 * digit_val a + 100 * digit_val b + 10 * digit_val c + digit_val d"
  by (auto simp: py_int_def is_digit_def)

lemmas re_then_simps = re_then_lit_Cons re_then_lit_Nil re_then_class_Cons re_then_class_Nil
  re_then_alt re_then_seq

lemma re_then_m:
  assumes "is_digit a" "is_digit b"
  shows "re_then re_m (\<lambda>m. re_then (re_lit ''-'') (k m)) (a # b # CHR ''-'' # t)
       = (if 1 \<le> py_int [a, b] \<and> py_int [a, b] \<le> 12 then k [a, b] ''-'' t else [])"
  using is_digit_cases[OF assms(1)] is_digit_cases[OF assms(2)]
  by (elim disjE) (simp_all add: re_m_def re_then_simps in_range_def py_int_def digit_val_def)

lemma re_then_d:
  assumes "is_digit a" "is_digit b"
  shows "first_match (re_then re_d (\<lambda>d r. [f d r]) [a, b])
       = (if 1 \<le> py_int [a, b] \<and> py_int [a, b] \<le> 31 then Some (f [a, b] [])
          else if a \<noteq> CHR ''0'' then Some (f [a] [b]) else None)"
  using is_digit_cases[OF assms(1)] is_digit_cases[OF assms(2)]
  by (elim disjE) (simp_all add: re_d_def re_then_simps in_range_def py_int_def digit_val_def first_match_def is_digit_def)

lemma re_then_Y:
  assumes "is_digit a" "is_digit b" "is_digit c" "is_digit d"
  shows "re_then re_Y k (a # b # c # d # t) = k [a, b, c, d] t"
  using assms by (simp add: re_Y_def eval_nat_numeral re_then_rep_Suc re_then_rep_0 re_then_simps del: re_rep.simps)

section \<open>Properties of \<^verbatim>\<open>strptime\<close>\<close>

lemma days_in_month_le: "1 \<le> m \<Longrightarrow> m \<le> 12 \<Longrightarrow> days_in_month y m \<le> 31 \<and> 28 \<le> days_in_month y m"
proof -
  assume "1 \<le> m" "m \<le> 12"
  then have "m = 1 \<or> m = 2 \<or> m = 3 \<or> m = 4 \<or> m = 5 \<or> m = 6 \<or> m = 7 \<or> m = 8
      \<or> m = 9 \<or> m = 10 \<or> m = 11 \<or> m = 12" by arith
  then show ?thesis by (auto simp: days_in_month_def)
qed

lemma strptime_shape:
  assumes "list_all is_digit [y1, y2, y3, y4, m1, m2, d1, d2]"
  shows "strptime [y1, y2, y3, y4, CHR ''-'', m1, m2, CHR ''-'', d1, d2]
       = (if valid_date (py_int [y1, y2, y3, y4]) (py_int [m1, m2]) (py_int [d1, d2])
          then Inr (datetime_ymd (py_int [y1, y2, y3, y4]) (py_int [m1, m2]) (py_int [d1, d2]))
          else Inl ValueError)"
proof -
  from assms have dg: "is_digit y1" "is_digit y2" "is_digit y3" "is_digit y4"
    "is_digit m1" "is_digit m2" "is_digit d1" "is_digit d2" by simp_all
  let ?Y = "[y1, y2, y3, y4]" and ?M = "[m1, m2]" and ?D = "[d1, d2]"
  let ?s = "[y1, y2, y3, y4, CHR ''-'', m1, m2, CHR ''-'', d1, d2]"
  have sm: "strptime_matches ?s =
     (if 1 \<le> py_int ?M \<and> py_int ?M \<le> 12 then re_then re_d (\<lambda>d r. [(?Y, ?M, d, r)]) ?D else [])"
    unfolding strptime_matches_def
    by (simp add: re_then_Y[OF dg(1-4)] re_then_lit_Cons re_then_m[OF dg(5,6)])
  show ?thesis
  proof (cases "1 \<le> py_int ?M \<and> py_int ?M \<le> 12")
    case False
    then have "\<not> valid_date (py_int ?Y) (py_int ?M) (py_int ?D)" by (auto simp: valid_date_def)
    moreover have "strptime_matches ?s = []"
      unfolding sm by (rule if_not_P) (rule False)
    ultimately show ?thesis by (simp add: strptime_def first_match_def)
  next
    case True
    note dim = days_in_month_le[of "py_int ?M" "py_int ?Y"]
    show ?thesis
    proof (cases "1 \<le> py_int ?D \<and> py_int ?D \<le> 31")
      case d_ok: True
      have "strptime_matches ?s = re_then re_d (\<lambda>d r. [(?Y, ?M, d, r)]) ?D"
        unfolding sm by (rule if_P) (rule True)
      with d_ok show ?thesis
        by (simp add: strptime_def re_then_d[OF dg(7,8)])
    next
      case False
      with True dim have "\<not> valid_date (py_int ?Y) (py_int ?M) (py_int ?D)"
        by (auto simp: valid_date_def)
      moreover have "strptime_matches ?s = re_then re_d (\<lambda>d r. [(?Y, ?M, d, r)]) ?D"
        unfolding sm by (rule if_P) (rule True)
      ultimately show ?thesis using False
        by (simp add: strptime_def re_then_d[OF dg(7,8)])
    qed
  qed
qed

section \<open>Properties of the file-name parser\<close>

lemma ml_lit: "matches_lang (re_lit p) (\<lambda>x. x = p)"
  by (auto simp: matches_lang_def set_re_lit)

lemma ml_plus: "matches_lang (re_plus P) (\<lambda>x. x \<noteq> [] \<and> list_all P x)"
  by (simp add: matches_lang_def set_re_plus)

lemma ml_class: "matches_lang (re_class P) (\<lambda>x. \<exists>c. P c \<and> x = [c])"
  by (auto simp: matches_lang_def re_class_def split: list.splits)

lemma ml_seq:
  assumes "matches_lang a L1" "matches_lang b L2"
  shows "matches_lang (re_seq a b) (\<lambda>x. \<exists>x1 x2. L1 x1 \<and> L2 x2 \<and> x = x1 @ x2)"
  using assms unfolding matches_lang_def re_seq_def set_re_then by auto

lemma ml_cong: "matches_lang a L \<Longrightarrow> (\<And>x. L x = L' x) \<Longrightarrow> matches_lang a L'"
  by (simp add: matches_lang_def)

lemma ml_rep: "matches_lang (re_rep n (re_class P)) (\<lambda>x. length x = n \<and> list_all P x)"
proof (induction n)
  case 0 show ?case by (auto simp: matches_lang_def)
next
  case (Suc n)
  have "matches_lang (re_rep (Suc n) (re_class P))
     (\<lambda>x. \<exists>x1 x2. (\<exists>c. P c \<and> x1 = [c]) \<and> (length x2 = n \<and> list_all P x2) \<and> x = x1 @ x2)"
    unfolding re_rep.simps by (rule ml_seq[OF ml_class Suc])
  then show ?case
  proof (rule ml_cong)
    fix x show "(\<exists>x1 x2. (\<exists>c. P c \<and> x1 = [c]) \<and> (length x2 = n \<and> list_all P x2) \<and> x = x1 @ x2)
        = (length x = Suc n \<and> list_all P x)"
      by (cases x) auto
  qed
qed

lemma ml_then:
  "matches_lang a L \<Longrightarrow> z \<in> set (re_then a k s) \<longleftrightarrow> (\<exists>x r. L x \<and> s = x @ r \<and> z \<in> set (k x r))"
  unfolding matches_lang_def set_re_then by auto

lemma ml_seq':
  assumes "matches_lang a L1" "matches_lang b L2"
    and "\<And>x. L x = (\<exists>x1 x2. L1 x1 \<and> L2 x2 \<and> x = x1 @ x2)"
  shows "matches_lang (re_seq a b) L"
  using ml_seq[OF assms(1,2)] assms(3) by (simp add: matches_lang_def)

lemma ml_date_group:
  "matches_lang re_date_group (\<lambda>g. \<exists>Y M D. date_shape Y M D \<and> g = Y @ ''-'' @ M @ ''-'' @ D)"
proof -
  let ?dg = "\<lambda>n x. length x = n \<and> list_all is_digit x"
  let ?a = "re_rep 2 (re_class is_digit)"
  let ?b = "re_seq (re_lit ''-'') ?a"
  let ?c = "re_seq ?a ?b"
  let ?d = "re_seq (re_lit ''-'') ?c"
  have a: "matches_lang ?a (?dg 2)"
    by (rule ml_rep)
  have b: "matches_lang ?b (\<lambda>x. \<exists>D. ?dg 2 D \<and> x = ''-'' @ D)"
    by (rule ml_seq'[OF ml_lit a]) auto
  have c: "matches_lang ?c (\<lambda>x. \<exists>M D. ?dg 2 M \<and> ?dg 2 D \<and> x = M @ ''-'' @ D)"
    by (rule ml_seq'[OF a b]) auto
  have d: "matches_lang ?d (\<lambda>x. \<exists>M D. ?dg 2 M \<and> ?dg 2 D \<and> x = ''-'' @ M @ ''-'' @ D)"
    by (rule ml_seq'[OF ml_lit c]) auto
  show ?thesis
    unfolding re_date_group_def
    by (rule ml_seq'[OF ml_rep d]) (auto simp: date_shape_def)
qed

lemma set_pattern_matches:
  "g \<in> set (pattern_matches s) \<longleftrightarrow>
     (\<exists>ident Y M D rest. ident \<noteq> [] \<and> CHR ''-'' \<notin> set ident \<and> date_shape Y M D \<and>
        g = Y @ ''-'' @ M @ ''-'' @ D \<and>
        s = ''wallpaper-'' @ ident @ ''-'' @ g @ ''.png'' @ rest)"
proof -
  let ?k5 = "\<lambda>g. re_then (re_lit ''.png'') (\<lambda>_ _. [g])"
  let ?k4 = "re_then re_date_group ?k5"
  let ?k3 = "re_then (re_lit ''-'') (\<lambda>_. ?k4)"
  let ?k2 = "re_then (re_plus (\<lambda>c. c \<noteq> CHR ''-'')) (\<lambda>_. ?k3)"
  let ?shape = "\<lambda>g. \<exists>Y M D. date_shape Y M D \<and> g = Y @ ''-'' @ M @ ''-'' @ D"
  have 5: "z \<in> set (?k5 g' t) \<longleftrightarrow> z = g' \<and> (\<exists>r. t = ''.png'' @ r)" for z g' t
    unfolding ml_then[OF ml_lit] by auto
  have 4: "z \<in> set (?k4 t) \<longleftrightarrow> ?shape z \<and> (\<exists>r. t = z @ ''.png'' @ r)" for z t
    unfolding ml_then[OF ml_date_group] 5 by auto
  have 3: "z \<in> set (?k3 t) \<longleftrightarrow> ?shape z \<and> (\<exists>r. t = ''-'' @ z @ ''.png'' @ r)" for z t
    unfolding ml_then[OF ml_lit] 4 by auto
  have 2: "z \<in> set (?k2 t) \<longleftrightarrow>
      ?shape z \<and> (\<exists>i r. i \<noteq> [] \<and> CHR ''-'' \<notin> set i \<and> t = i @ ''-'' @ z @ ''.png'' @ r)" for z t
  proof
    assume "z \<in> set (?k2 t)"
    then show "?shape z \<and> (\<exists>i r. i \<noteq> [] \<and> CHR ''-'' \<notin> set i \<and> t = i @ ''-'' @ z @ ''.png'' @ r)"
      unfolding ml_then[OF ml_plus] 3 by (auto simp: list_all_iff)
  next
    assume "?shape z \<and> (\<exists>i r. i \<noteq> [] \<and> CHR ''-'' \<notin> set i \<and> t = i @ ''-'' @ z @ ''.png'' @ r)"
    then obtain i r where "?shape z" "i \<noteq> []" "CHR ''-'' \<notin> set i" "t = i @ ''-'' @ z @ ''.png'' @ r"
      by blast
    then show "z \<in> set (?k2 t)"
      unfolding ml_then[OF ml_plus] 3
      by (intro exI[of _ i] exI[of _ "''-'' @ z @ ''.png'' @ r"]) (auto simp: list_all_iff)
  qed
  have 1: "z \<in> set (pattern_matches t) \<longleftrightarrow>
      ?shape z \<and> (\<exists>i r. i \<noteq> [] \<and> CHR ''-'' \<notin> set i \<and>
         t = ''wallpaper-'' @ i @ ''-'' @ z @ ''.png'' @ r)" for z t
    unfolding pattern_matches_def ml_then[OF ml_lit] 2 by auto
  show ?thesis unfolding 1 by blast
qed

lemma split_at_first:
  "x \<notin> set xs \<Longrightarrow> x \<notin> set xs' \<Longrightarrow> xs @ x # ys = xs' @ x # ys' \<Longrightarrow> xs = xs' \<and> ys = ys'"
proof (induction xs arbitrary: xs')
  case Nil then show ?case by (cases xs') auto
next
  case (Cons a xs) then show ?case by (cases xs') auto
qed

lemma pattern_matches_unique:
  assumes "g \<in> set (pattern_matches s)" "g' \<in> set (pattern_matches s)"
  shows "g = g'"
proof -
  from assms(1) obtain i Y M D r where 1: "CHR ''-'' \<notin> set i" "date_shape Y M D"
      "g = Y @ ''-'' @ M @ ''-'' @ D" "s = ''wallpaper-'' @ i @ ''-'' @ g @ ''.png'' @ r"
    unfolding set_pattern_matches by blast
  from assms(2) obtain i' Y' M' D' r' where 2: "CHR ''-'' \<notin> set i'" "date_shape Y' M' D'"
      "g' = Y' @ ''-'' @ M' @ ''-'' @ D'" "s = ''wallpaper-'' @ i' @ ''-'' @ g' @ ''.png'' @ r'"
    unfolding set_pattern_matches by blast
  from 1(4) 2(4) have "i @ CHR ''-'' # (g @ ''.png'' @ r) = i' @ CHR ''-'' # (g' @ ''.png'' @ r')"
    by simp
  with split_at_first[OF 1(1) 2(1)]
  have "g @ ''.png'' @ r = g' @ ''.png'' @ r'"
    by blast
  moreover have "length g = length g'"
    using 1(2,3) 2(2,3) by (simp add: date_shape_def)
  ultimately show ?thesis by simp
qed

lemma first_match_unique:
  assumes "\<And>x y. x \<in> set l \<Longrightarrow> y \<in> set l \<Longrightarrow> x = y"
  shows "first_match l = Some g \<longleftrightarrow> g \<in> set l"
  using assms by (cases l) (auto simp: first_match_def)

lemma first_match_pattern:
  "first_match (pattern_matches s) = Some g \<longleftrightarrow> g \<in> set (pattern_matches s)"
  by (rule first_match_unique) (rule pattern_matches_unique)

lemma first_match_None: "first_match l = None \<longleftrightarrow> l = []"
  by (cases l) (auto simp: first_match_def)

lemma strptime_date_shape:
  assumes "date_shape Y M D"
  shows "strptime (Y @ ''-'' @ M @ ''-'' @ D)
       = (if valid_date (py_int Y) (py_int M) (py_int D)
          then Inr (datetime_ymd (py_int Y) (py_int M) (py_int D)) else Inl ValueError)"
proof -
  from assms obtain y1 y2 y3 y4 where Y: "Y = [y1, y2, y3, y4]"
    by (auto simp: date_shape_def eval_nat_numeral length_Suc_conv)
  from assms obtain m1 m2 where M: "M = [m1, m2]"
    by (auto simp: date_shape_def eval_nat_numeral length_Suc_conv)
  from assms obtain d1 d2 where D: "D = [d1, d2]"
    by (auto simp: date_shape_def eval_nat_numeral length_Suc_conv)
  from assms have "list_all is_digit [y1, y2, y3, y4, m1, m2, d1, d2]"
    by (simp add: date_shape_def Y M D)
  from strptime_shape[OF this] show ?thesis by (simp add: Y M D)
qed

lemma strptime_not_Overflow: "strptime s \<noteq> Inl OverflowError"
  by (auto simp: strptime_def split: option.splits prod.splits)

lemma parse_eval:
  assumes "ident \<noteq> []" "CHR ''-'' \<notin> set ident" "date_shape Y M D"
  shows "parse_date_from_filename (''wallpaper-'' @ ident @ ''-'' @ Y @ ''-'' @ M @ ''-'' @ D @ ''.png'' @ rest)
       = Inr (if valid_date (py_int Y) (py_int M) (py_int D)
              then Some (datetime_ymd (py_int Y) (py_int M) (py_int D)) else None)"
proof -
  let ?g = "Y @ ''-'' @ M @ ''-'' @ D"
  let ?s = "''wallpaper-'' @ ident @ ''-'' @ Y @ ''-'' @ M @ ''-'' @ D @ ''.png'' @ rest"
  have "?s = ''wallpaper-'' @ ident @ ''-'' @ ?g @ ''.png'' @ rest" by simp
  with assms have "?g \<in> set (pattern_matches ?s)"
    unfolding set_pattern_matches by blast
  then have "first_match (pattern_matches ?s) = Some ?g"
    by (simp only: first_match_pattern)
  then show ?thesis
    using strptime_date_shape[OF assms(3)]
    by (simp add: parse_date_from_filename_def)
qed



text \<open>
  The claim as stated fails: text after \<^verbatim>\<open>.png\<close> is accepted, since \<^verbatim>\<open>re.match\<close>
  anchors at the start only.
\<close>

lemmas eval_date = date_shape_def is_digit_def py_int_def digit_val_def valid_date_def
  days_in_month_def is_leap_def MINYEAR_def MAXYEAR_def


section \<open>Properties of the selector\<close>

lemma parse_never_raises: "parse_date_from_filename s \<noteq> Inl e"
  using strptime_not_Overflow
  by (auto simp: parse_date_from_filename_def split: option.splits sum.splits exn.splits)

lemma parse_cases:
  obtains "parse_date_from_filename s = Inr None"
  | d where "parse_date_from_filename s = Inr (Some d)"
proof (cases "parse_date_from_filename s")
  case (Inl e)
  with parse_never_raises[of s e] show ?thesis by simp
next
  case (Inr r)
  with that show ?thesis by (cases r) auto
qed

lemma select_old_eq: "select_old c fps acc = Inr (acc @ candidates c fps)"
proof (induction fps arbitrary: acc)
  case Nil show ?case by (simp add: candidates_def)
next
  case (Cons fp fps)
  show ?case
  proof (cases rule: parse_cases[of "snd fp"])
    case 1
    then show ?thesis using Cons[of acc] by (simp add: candidates_def)
  next
    case (2 d)
    then show ?thesis using Cons[of acc] Cons[of "acc @ [(fp, d)]"] by (simp add: candidates_def)
  qed
qed

lemma set_candidates:
  "set (candidates c fps)
     = {(fp, d). fp \<in> set fps \<and> parse_date_from_filename (snd fp) = Inr (Some d) \<and> d < c}"
  by (auto simp: candidates_def split: sum.splits option.splits if_splits)

lemma map_fst_candidates:
  "map fst (candidates c fps) = filter (\<lambda>fp. qualifies c (snd fp)) fps"
  by (induction fps) (auto simp: candidates_def qualifies_def split: sum.splits option.splits)

lemma now_eq: "now w = (clock w (ticks w), w\<lparr>ticks := Suc (ticks w)\<rparr>)"
  by (simp add: now_def)

lemma glob_ticks [simp]: "glob d (w\<lparr>ticks := n\<rparr>) = glob d w"
  by (simp add: glob_def listing_def)

lemma find_old_wallpapers_ok:
  assumes "cutoff_of (clock w (ticks w)) n = Inr c"
  shows "find_old_wallpapers d n w
       = (Inr (sort_key snd (candidates c (glob d w))), w\<lparr>ticks := Suc (ticks w)\<rparr>)"
  using assms by (simp add: find_old_wallpapers_def now_def select_old_eq)

lemma find_old_wallpapers_error:
  assumes "cutoff_of (clock w (ticks w)) n = Inl e"
  shows "find_old_wallpapers d n w = (Inl e, w\<lparr>ticks := Suc (ticks w)\<rparr>)"
  using assms by (simp add: find_old_wallpapers_def now_def)

lemma candidates_Nil_iff:
  "candidates c (glob d w) = []
     \<longleftrightarrow> (\<forall>e\<in>set (listing w d). glob_match (ename e) \<longrightarrow> \<not> qualifies c (ename e))"
proof -
  have "candidates c (glob d w) = [] \<longleftrightarrow> map fst (candidates c (glob d w)) = []" by simp
  also have "\<dots> \<longleftrightarrow> (\<forall>fp\<in>set (glob d w). \<not> qualifies c (snd fp))"
    unfolding map_fst_candidates by (simp add: filter_empty_conv)
  also have "\<dots> \<longleftrightarrow> (\<forall>e\<in>set (listing w d). glob_match (ename e) \<longrightarrow> \<not> qualifies c (ename e))"
    by (auto simp: glob_def)
  finally show ?thesis .
qed

text \<open>
  Claim C2, as the code has it. Whenever the cutoff, the clock reading at the start of
  the selection minus \<open>max_age_days\<close> days, is a datetime Python can represent, the
  selector reads the clock once and returns a sequence that is sorted non-decreasing by
  parsed date and whose dates are all strictly earlier than that cutoff; the sequence is
  empty exactly when no name that the pattern yields qualifies, in particular for an
  empty or missing directory and for a directory without matching names. (Otherwise the
  subtraction raises \<^verbatim>\<open>OverflowError\<close>.)
\<close>

theorem find_old_wallpapers_sorted_before_cutoff:
  assumes "cutoff_of (clock w (ticks w)) max_age_days = Inr cutoff"
  shows "\<exists>old_files.
           find_old_wallpapers directory max_age_days w
             = (Inr old_files, w\<lparr>ticks := Suc (ticks w)\<rparr>) \<and>
           sorted (map snd old_files) \<and>
           (\<forall>x\<in>set old_files. snd x < cutoff) \<and>
           (old_files = [] \<longleftrightarrow>
              (\<forall>e\<in>set (listing w directory).
                 glob_match (ename e) \<longrightarrow> \<not> qualifies cutoff (ename e))) \<and>
           (listing w directory = [] \<longrightarrow> old_files = []) \<and>
           ((\<forall>e\<in>set (listing w directory). \<not> glob_match (ename e)) \<longrightarrow> old_files = [])"
proof -
  let ?fs = "sort_key snd (candidates cutoff (glob directory w))"
  have 1: "find_old_wallpapers directory max_age_days w = (Inr ?fs, w\<lparr>ticks := Suc (ticks w)\<rparr>)"
    by (rule find_old_wallpapers_ok[OF assms])
  have 2: "sorted (map snd ?fs)" by (rule sorted_sort_key)
  have 3: "\<forall>x\<in>set ?fs. snd x < cutoff" by (auto simp: set_candidates)
  have "?fs = [] \<longleftrightarrow> candidates cutoff (glob directory w) = []"
    using set_sort[of snd "candidates cutoff (glob directory w)"] set_empty by metis
  then have 4: "?fs = [] \<longleftrightarrow> (\<forall>e\<in>set (listing w directory).
                 glob_match (ename e) \<longrightarrow> \<not> qualifies cutoff (ename e))"
    by (simp only: candidates_Nil_iff)
  from 4 have 5: "listing w directory = [] \<longrightarrow> ?fs = []" by simp
  from 4 have 6: "(\<forall>e\<in>set (listing w directory). \<not> glob_match (ename e)) \<longrightarrow> ?fs = []" by blast
  show ?thesis
    by (rule exI[of _ ?fs]) (intro conjI 1 2 3 4 5 6)
qed

lemmas eval_cutoff = cutoff_of_def timedelta_def datetime_sub_def toordinal_def time_of_day_def
  MAXORDINAL_def ymd2ord_def days_before_year_def days_before_month_def is_leap_def

lemmas eval_world = world_at_def plain_file_def protected_file_def listing_def glob_def
  glob_match_def

lemma parse_laptop_2020:
  "parse_date_from_filename ''wallpaper-laptop-2020-01-01.png'' = Inr (Some (datetime_ymd 2020 1 1))"
  using parse_eval[of "''laptop''" "''2020''" "''01''" "''01''" "[]"]
  by (simp add: eval_date)

lemma parse_phone_2099:
  "parse_date_from_filename ''wallpaper-phone-2099-01-01.png'' = Inr (Some (datetime_ymd 2099 1 1))"
  using parse_eval[of "''phone''" "''2099''" "''01''" "''01''" "[]"]
  by (simp add: eval_date)

lemma scenario_cutoff:
  "cutoff_of (clock scenario_world (ticks scenario_world)) 30 = Inr (ymd2ord 2024 3 25, 43200000000)"
  by (simp add: scenario_world_def eval_world eval_cutoff)

lemma scenario_glob:
  "glob ''/pictures'' scenario_world
     = [(''/pictures'', ''wallpaper-laptop-2020-01-01.png''),
        (''/pictures'', ''wallpaper-phone-2099-01-01.png'')]"
  by (simp add: scenario_world_def eval_world)

lemma scenario_candidates:
  "candidates (ymd2ord 2024 3 25, 43200000000) (glob ''/pictures'' scenario_world)
     = [((''/pictures'', ''wallpaper-laptop-2020-01-01.png''), datetime_ymd 2020 1 1)]"
  unfolding scenario_glob
  by (simp add: candidates_def parse_laptop_2020 parse_phone_2099 datetime_ymd_def eval_cutoff)

theorem find_old_wallpapers_sorted_before_cutoff_witness:
  "cutoff_of (clock scenario_world (ticks scenario_world)) 30
     = Inr (ymd2ord 2024 3 25, 43200000000) \<and>
   (\<exists>old_files.
      find_old_wallpapers ''/pictures'' 30 scenario_world
        = (Inr old_files, scenario_world\<lparr>ticks := Suc (ticks scenario_world)\<rparr>) \<and>
      sorted (map snd old_files) \<and>
      (\<forall>x\<in>set old_files. snd x < (ymd2ord 2024 3 25, 43200000000)) \<and>
      (old_files = [] \<longleftrightarrow>
         (\<forall>e\<in>set (listing scenario_world ''/pictures'').
            glob_match (ename e) \<longrightarrow> \<not> qualifies (ymd2ord 2024 3 25, 43200000000) (ename e))) \<and>
      (listing scenario_world ''/pictures'' = [] \<longrightarrow> old_files = []) \<and>
      ((\<forall>e\<in>set (listing scenario_world ''/pictures''). \<not> glob_match (ename e))
         \<longrightarrow> old_files = []))"
  by (rule conjI[OF scenario_cutoff find_old_wallpapers_sorted_before_cutoff[OF scenario_cutoff]])

text \<open>
  The claim as stated fails for a threshold that takes the cutoff before the year 1: the
  selector raises, even on an empty directory.
\<close>

theorem find_old_wallpapers_overflow_counterexample:
  "fst (find_old_wallpapers ''/pictures'' 4000000 (world_at (ymd2ord 2024 4 24, 43200000000) []))
     = Inl OverflowError"
proof -
  let ?w = "world_at (ymd2ord 2024 4 24, 43200000000) []"
  have "cutoff_of (clock ?w (ticks ?w)) 4000000 = Inl OverflowError"
    by (simp add: eval_world eval_cutoff)
  from find_old_wallpapers_error[OF this] show ?thesis by simp
qed

lemma scenario_find:
  "fst (find_old_wallpapers ''/pictures'' 30 scenario_world)
     = Inr [((''/pictures'', ''wallpaper-laptop-2020-01-01.png''), datetime_ymd 2020 1 1)]"
  by (simp add: find_old_wallpapers_ok[OF scenario_cutoff] scenario_candidates)

lemma cutoff_of_in_range:
  assumes "- 999999999 \<le> n" "n \<le> 999999999" "0 < toordinal t - n" "toordinal t - n \<le> MAXORDINAL"
  shows "cutoff_of t n = Inr (toordinal t - n, time_of_day t)"
  using assms by (simp add: cutoff_of_def timedelta_def datetime_sub_def)


lemma set_candidates_glob:
  "set (candidates c (glob d w))
     = {((d, ename e), dt) | e dt. e \<in> set (listing w d) \<and> glob_match (ename e) \<and>
          parse_date_from_filename (ename e) = Inr (Some dt) \<and> dt < c}"
  unfolding set_candidates by (auto simp: glob_def)

text \<open>
  Claim C10, as the code has it. The threshold is not checked for its sign. For every
  integer \<open>n\<close>, negative and zero included, for which \<^verbatim>\<open>timedelta(days=n)\<close> exists
  (at most 999999999 days either way) and the clock reading minus \<open>n\<close> days lies in
  the years 1 to 9999, the cutoff is that datetime and the selector returns exactly the
  files the pattern yields whose parsed date is strictly earlier than it. A negative
  \<open>n\<close> puts the cutoff after the clock reading, and files dated after today and
  before that cutoff are selected.
\<close>

theorem find_old_wallpapers_any_threshold:
  assumes "t = clock w (ticks w)"
    and "- 999999999 \<le> n" and "n \<le> 999999999"
    and "0 < toordinal t - n" and "toordinal t - n \<le> MAXORDINAL"
  shows "\<exists>old_files.
           fst (find_old_wallpapers directory n w) = Inr old_files \<and>
           set old_files =
             {((directory, ename e), d) | e d.
                e \<in> set (listing w directory) \<and> glob_match (ename e) \<and>
                parse_date_from_filename (ename e) = Inr (Some d) \<and>
                d < (toordinal t - n, time_of_day t)} \<and>
           (n < 0 \<longrightarrow> t < (toordinal t - n, time_of_day t)) \<and>
           (\<forall>e d. n < 0 \<and> e \<in> set (listing w directory) \<and> glob_match (ename e) \<and>
                  parse_date_from_filename (ename e) = Inr (Some d) \<and>
                  toordinal t < toordinal d \<and> d < (toordinal t - n, time_of_day t)
                  \<longrightarrow> ((directory, ename e), d) \<in> set old_files)"
proof -
  let ?c = "(toordinal t - n, time_of_day t)"
  let ?fs = "sort_key snd (candidates ?c (glob directory w))"
  have c: "cutoff_of (clock w (ticks w)) n = Inr ?c"
    using cutoff_of_in_range[OF assms(2-5)] assms(1) by simp
  have 1: "fst (find_old_wallpapers directory n w) = Inr ?fs"
    by (simp add: find_old_wallpapers_ok[OF c])
  have 2: "set ?fs = {((directory, ename e), d) | e d.
                e \<in> set (listing w directory) \<and> glob_match (ename e) \<and>
                parse_date_from_filename (ename e) = Inr (Some d) \<and> d < ?c}"
    by (simp only: set_sort set_candidates_glob)
  have 3: "n < 0 \<longrightarrow> t < ?c"
    by (cases t) (simp add: toordinal_def time_of_day_def less_prod_def)
  have 4: "\<forall>e d. n < 0 \<and> e \<in> set (listing w directory) \<and> glob_match (ename e) \<and>
                  parse_date_from_filename (ename e) = Inr (Some d) \<and>
                  toordinal t < toordinal d \<and> d < ?c
                  \<longrightarrow> ((directory, ename e), d) \<in> set ?fs"
    unfolding 2 by blast
  show ?thesis
    by (rule exI[of _ ?fs]) (intro conjI 1 2 3 4)
qed



lemma parse_phone_2024:
  "parse_date_from_filename ''wallpaper-phone-2024-05-01.png'' = Inr (Some (datetime_ymd 2024 5 1))"
  using parse_eval[of "''phone''" "''2024''" "''05''" "''01''" "[]"]
  by (simp add: eval_date)

theorem find_old_wallpapers_any_threshold_witness:
  "\<exists>old_files.
     fst (find_old_wallpapers ''/pictures'' (- 30) future_world) = Inr old_files \<and>
     ((''/pictures'', ''wallpaper-phone-2024-05-01.png''), datetime_ymd 2024 5 1) \<in> set old_files"
proof -
  let ?t = "(ymd2ord 2024 4 24, 43200000000) :: datetime"
  let ?e = "plain_file ''wallpaper-phone-2024-05-01.png''"
  have h1: "?t = clock future_world (ticks future_world)"
    by (simp add: future_world_def world_at_def)
  have h2: "- 999999999 \<le> (- 30 :: int)" and h3: "(- 30 :: int) \<le> 999999999" by simp_all
  have h4: "0 < toordinal ?t - (- 30)" and h5: "toordinal ?t - (- 30) \<le> MAXORDINAL"
    by (simp_all add: eval_cutoff)
  from find_old_wallpapers_any_threshold[OF h1 h2 h3 h4 h5, of "''/pictures''"]
  obtain fs where fs: "fst (find_old_wallpapers ''/pictures'' (- 30) future_world) = Inr fs"
    and sel: "\<forall>e d. (- 30 :: int) < 0 \<and> e \<in> set (listing future_world ''/pictures'') \<and>
                glob_match (ename e) \<and> parse_date_from_filename (ename e) = Inr (Some d) \<and>
                toordinal ?t < toordinal d \<and> d < (toordinal ?t - (- 30), time_of_day ?t)
                \<longrightarrow> ((''/pictures'', ename e), d) \<in> set fs"
    by blast
  have "((''/pictures'', ename ?e), datetime_ymd 2024 5 1) \<in> set fs"
    by (rule sel[rule_format])
       (simp add: future_world_def eval_world parse_phone_2024 datetime_ymd_def eval_cutoff)
  then have "((''/pictures'', ''wallpaper-phone-2024-05-01.png''), datetime_ymd 2024 5 1) \<in> set fs"
    by (simp add: plain_file_def)
  with fs show ?thesis by blast
qed

text \<open>
  The claim as stated fails for a threshold beyond the range of \<^verbatim>\<open>timedelta\<close>: the
  selector raises and returns no file, though the directory holds a wallpaper dated
  before the clock reading minus the threshold.
\<close>

theorem find_old_wallpapers_huge_threshold_counterexample:
  "fst (find_old_wallpapers ''/pictures'' (- 1000000000) scenario_world) = Inl OverflowError
   \<and> plain_file ''wallpaper-laptop-2020-01-01.png'' \<in> set (listing scenario_world ''/pictures'')
   \<and> glob_match ''wallpaper-laptop-2020-01-01.png''
   \<and> parse_date_from_filename ''wallpaper-laptop-2020-01-01.png''
        = Inr (Some (datetime_ymd 2020 1 1))
   \<and> toordinal (datetime_ymd 2020 1 1)
        < toordinal (clock scenario_world (ticks scenario_world)) - (- 1000000000)"
proof -
  have "cutoff_of (clock scenario_world (ticks scenario_world)) (- 1000000000) = Inl OverflowError"
    by (simp add: scenario_world_def eval_world eval_cutoff)
  from find_old_wallpapers_error[OF this]
  have "fst (find_old_wallpapers ''/pictures'' (- 1000000000) scenario_world) = Inl OverflowError"
    by simp
  then show ?thesis
    by (simp add: parse_laptop_2020 scenario_world_def eval_world datetime_ymd_def eval_cutoff)
qed






section \<open>Properties of the orchestrator\<close>

lemma listing_simps [simp]:
  "listing (w\<lparr>ticks := t\<rparr>) p = listing w p"
  "listing (w\<lparr>stdout := s\<rparr>) p = listing w p"
  "listing (w\<lparr>unlink_log := l\<rparr>) p = listing w p"
  by (simp_all add: listing_def)

lemma listing_print [simp]: "listing (print l w) p = listing w p"
  by (simp add: print_def)

lemma print_simps [simp]:
  "stdout (print l w) = stdout w @ [l]"
  "ticks (print l w) = ticks w"
  "clock (print l w) = clock w"
  "cwd (print l w) = cwd w"
  "dirs (print l w) = dirs w"
  "unlink_log (print l w) = unlink_log w"
  by (simp_all add: print_def)

lemma unlink_outcome_simps [simp]:
  "unlink_outcome (w\<lparr>ticks := t\<rparr>) fp = unlink_outcome w fp"
  "unlink_outcome (print l w) fp = unlink_outcome w fp"
  by (simp_all add: unlink_outcome_def)

lemma delete_files_dry_Cons:
  "delete_files True ((fp, fd) # rest) cnt w =
     delete_files True rest (Suc cnt) (print (file_line w fp fd) (w\<lparr>ticks := Suc (ticks w)\<rparr>))"
  by (simp add: now_def file_line_def)

lemma delete_files_live_Cons:
  "delete_files False ((fp, fd) # rest) cnt w =
     (let w2 = print (file_line w fp fd) (w\<lparr>ticks := Suc (ticks w)\<rparr>)
      in case unlink_outcome w fp of
           None \<Rightarrow>
             delete_files False rest (Suc cnt)
               (w2\<lparr>unlink_log := unlink_log w @ [(fp, None)],
                    dirs := (dirs w)(fst fp \<mapsto>
                              filter (\<lambda>e. ename e \<noteq> snd fp) (listing w (fst fp)))\<rparr>)
         | Some e \<Rightarrow>
             delete_files False rest cnt
               (print (DeleteError (snd fp) e) (w2\<lparr>unlink_log := unlink_log w @ [(fp, Some e)]\<rparr>)))"
  by (simp add: now_def unlink_def file_line_def Let_def split: option.splits)

lemma unlink_outcome_None_listing:
  assumes "unlink_outcome w fp = None"
  shows "dirs w (fst fp) = Some (listing w (fst fp))"
  using assms by (auto simp: unlink_outcome_def listing_def split: option.splits)

lemma delete_files_dry:
  "delete_files True cands cnt w = (cnt', w') \<Longrightarrow>
     cnt' = cnt + length cands \<and> dirs w' = dirs w \<and> unlink_log w' = unlink_log w \<and>
     ticks w' = ticks w + length cands \<and> clock w' = clock w \<and> cwd w' = cwd w \<and>
     (\<exists>lines. stdout w' = stdout w @ lines \<and> (\<forall>l\<in>set lines. \<not> is_summary l) \<and>
        file_lines lines = map (\<lambda>c. (snd (fst c), snd c)) cands \<and> failure_lines lines = [])"
proof (induction cands arbitrary: cnt w)
  case Nil
  then show ?case by (simp add: file_lines_def failure_lines_def map_filter_simps)
next
  case (Cons c cands)
  obtain fp fd where c: "c = (fp, fd)" by (cases c)
  let ?l = "file_line w fp fd"
  let ?w = "print ?l (w\<lparr>ticks := Suc (ticks w)\<rparr>)"
  from Cons.prems have "delete_files True cands (Suc cnt) ?w = (cnt', w')"
    by (simp add: c delete_files_dry_Cons del: delete_files.simps)
  from Cons.IH[OF this] obtain lines where
    1: "cnt' = Suc cnt + length cands" "dirs w' = dirs w" "unlink_log w' = unlink_log w"
       "ticks w' = Suc (ticks w) + length cands" "clock w' = clock w" "cwd w' = cwd w"
    and 2: "stdout w' = (stdout w @ [?l]) @ lines" "\<forall>l\<in>set lines. \<not> is_summary l"
       "file_lines lines = map (\<lambda>c. (snd (fst c), snd c)) cands" "failure_lines lines = []"
    by auto
  have "stdout w' = stdout w @ (?l # lines) \<and> (\<forall>l\<in>set (?l # lines). \<not> is_summary l) \<and>
        file_lines (?l # lines) = map (\<lambda>c. (snd (fst c), snd c)) (c # cands) \<and>
        failure_lines (?l # lines) = []"
    using 2 by (simp add: c is_summary_def file_lines_def failure_lines_def file_line_def
                  map_filter_simps)
  then show ?case using 1 by (simp add: c)
qed

lemma listing_after_unlink:
  assumes "unlink_outcome w fp = None"
  shows "listing (w2\<lparr>unlink_log := l,
            dirs := (dirs w)(fst fp \<mapsto> filter (\<lambda>e. ename e \<noteq> snd fp) (listing w (fst fp)))\<rparr>) p
       = filter (\<lambda>e. (p, ename e) \<noteq> fp) (listing w p)"
  by (cases fp) (auto simp: listing_def)

lemma delete_files_live:
  "delete_files False cands cnt w = (cnt', w') \<Longrightarrow>
     ticks w' = ticks w + length cands \<and> clock w' = clock w \<and> cwd w' = cwd w \<and>
     (\<exists>new lines.
        unlink_log w' = unlink_log w @ new \<and> stdout w' = stdout w @ lines \<and>
        map fst new = map fst cands \<and> cnt' = cnt + length (deleted_files new) \<and>
        (\<forall>l\<in>set lines. \<not> is_summary l) \<and>
        file_lines lines = map (\<lambda>c. (snd (fst c), snd c)) cands \<and>
        failure_lines lines = failed_unlinks new \<and>
        (\<forall>p. listing w' p
              = filter (\<lambda>e. (p, ename e) \<notin> set (deleted_files new)) (listing w p)))"
proof (induction cands arbitrary: cnt w)
  case Nil
  then show ?case
    by (simp add: file_lines_def failure_lines_def failed_unlinks_def deleted_files_def
          map_filter_simps)
next
  case (Cons c cands)
  obtain fp fd where c: "c = (fp, fd)" by (cases c)
  let ?l = "file_line w fp fd"
  let ?w2 = "print ?l (w\<lparr>ticks := Suc (ticks w)\<rparr>)"
  show ?case
  proof (cases "unlink_outcome w fp")
    case None
    let ?w3 = "?w2\<lparr>unlink_log := unlink_log w @ [(fp, None)],
                    dirs := (dirs w)(fst fp \<mapsto>
                              filter (\<lambda>e. ename e \<noteq> snd fp) (listing w (fst fp)))\<rparr>"
    from Cons.prems None have "delete_files False cands (Suc cnt) ?w3 = (cnt', w')"
      by (simp add: c delete_files_live_Cons Let_def del: delete_files.simps)
    from Cons.IH[OF this] obtain new lines where
      1: "ticks w' = Suc (ticks w) + length cands" "clock w' = clock w" "cwd w' = cwd w"
      and 2: "unlink_log w' = (unlink_log w @ [(fp, None)]) @ new"
        "stdout w' = (stdout w @ [?l]) @ lines"
        "map fst new = map fst cands" "cnt' = Suc cnt + length (deleted_files new)"
        "\<forall>l\<in>set lines. \<not> is_summary l"
        "file_lines lines = map (\<lambda>c. (snd (fst c), snd c)) cands"
        "failure_lines lines = failed_unlinks new"
      and 3: "\<forall>p. listing w' p
              = filter (\<lambda>e. (p, ename e) \<notin> set (deleted_files new)) (listing ?w3 p)"
      by auto
    let ?new = "(fp, None) # new" and ?lines = "?l # lines"
    have 4: "\<forall>p. listing w' p
              = filter (\<lambda>e. (p, ename e) \<notin> set (deleted_files ?new)) (listing w p)"
      using 3 unfolding listing_after_unlink[OF None]
      by (auto simp: deleted_files_def intro: filter_cong)
    have "unlink_log w' = unlink_log w @ ?new \<and> stdout w' = stdout w @ ?lines \<and>
        map fst ?new = map fst (c # cands) \<and> cnt' = cnt + length (deleted_files ?new) \<and>
        (\<forall>l\<in>set ?lines. \<not> is_summary l) \<and>
        file_lines ?lines = map (\<lambda>c. (snd (fst c), snd c)) (c # cands) \<and>
        failure_lines ?lines = failed_unlinks ?new"
      using 2 by (simp add: c is_summary_def file_lines_def failure_lines_def failed_unlinks_def
                    deleted_files_def file_line_def map_filter_simps)
    with 4 have "\<exists>new lines.
        unlink_log w' = unlink_log w @ new \<and> stdout w' = stdout w @ lines \<and>
        map fst new = map fst (c # cands) \<and> cnt' = cnt + length (deleted_files new) \<and>
        (\<forall>l\<in>set lines. \<not> is_summary l) \<and>
        file_lines lines = map (\<lambda>c. (snd (fst c), snd c)) (c # cands) \<and>
        failure_lines lines = failed_unlinks new \<and>
        (\<forall>p. listing w' p
              = filter (\<lambda>e. (p, ename e) \<notin> set (deleted_files new)) (listing w p))"
      by (intro exI[of _ ?new] exI[of _ ?lines]) (rule conjI | assumption | erule conjE)+
    with 1 show ?thesis by simp
  next
    case (Some e)
    let ?d = "DeleteError (snd fp) e"
    let ?w3 = "print ?d (?w2\<lparr>unlink_log := unlink_log w @ [(fp, Some e)]\<rparr>)"
    from Cons.prems Some have "delete_files False cands cnt ?w3 = (cnt', w')"
      by (simp add: c delete_files_live_Cons Let_def del: delete_files.simps)
    from Cons.IH[OF this] obtain new lines where
      1: "ticks w' = Suc (ticks w) + length cands" "clock w' = clock w" "cwd w' = cwd w"
      and 2: "unlink_log w' = (unlink_log w @ [(fp, Some e)]) @ new"
        "stdout w' = (stdout w @ [?l, ?d]) @ lines"
        "map fst new = map fst cands" "cnt' = cnt + length (deleted_files new)"
        "\<forall>l\<in>set lines. \<not> is_summary l"
        "file_lines lines = map (\<lambda>c. (snd (fst c), snd c)) cands"
        "failure_lines lines = failed_unlinks new"
      and 3: "\<forall>p. listing w' p
              = filter (\<lambda>e. (p, ename e) \<notin> set (deleted_files new)) (listing ?w3 p)"
      by auto
    let ?new = "(fp, Some e) # new" and ?lines = "?l # ?d # lines"
    have 4: "\<forall>p. listing w' p
              = filter (\<lambda>e. (p, ename e) \<notin> set (deleted_files ?new)) (listing w p)"
      using 3 by (simp add: deleted_files_def)
    have "unlink_log w' = unlink_log w @ ?new \<and> stdout w' = stdout w @ ?lines \<and>
        map fst ?new = map fst (c # cands) \<and> cnt' = cnt + length (deleted_files ?new) \<and>
        (\<forall>l\<in>set ?lines. \<not> is_summary l) \<and>
        file_lines ?lines = map (\<lambda>c. (snd (fst c), snd c)) (c # cands) \<and>
        failure_lines ?lines = failed_unlinks ?new"
      using 2 by (simp add: c is_summary_def file_lines_def failure_lines_def failed_unlinks_def
                    deleted_files_def file_line_def map_filter_simps)
    with 4 have "\<exists>new lines.
        unlink_log w' = unlink_log w @ new \<and> stdout w' = stdout w @ lines \<and>
        map fst new = map fst (c # cands) \<and> cnt' = cnt + length (deleted_files new) \<and>
        (\<forall>l\<in>set lines. \<not> is_summary l) \<and>
        file_lines lines = map (\<lambda>c. (snd (fst c), snd c)) (c # cands) \<and>
        failure_lines lines = failed_unlinks new \<and>
        (\<forall>p. listing w' p
              = filter (\<lambda>e. (p, ename e) \<notin> set (deleted_files new)) (listing w p))"
      by (intro exI[of _ ?new] exI[of _ ?lines]) (rule conjI | assumption | erule conjE)+
    with 1 show ?thesis by simp
  qed
qed

lemma cleanup_error1:
  assumes "cutoff_of (clock w (ticks w)) n = Inl e"
  shows "cleanup_old_wallpapers directory n dry w = (Inl e, w\<lparr>ticks := Suc (ticks w)\<rparr>)"
  by (simp add: cleanup_old_wallpapers_def find_old_wallpapers_error[OF assms])

lemma cleanup_empty:
  assumes "cutoff_of (clock w (ticks w)) n = Inr c1"
    and "candidates c1 (glob (target_directory directory w) w) = []"
  shows "cleanup_old_wallpapers directory n dry w
       = (Inr 0, print (NoOldFiles n) (w\<lparr>ticks := Suc (ticks w)\<rparr>))"
  using assms(2)
  by (simp add: cleanup_old_wallpapers_def find_old_wallpapers_ok[OF assms(1)]
        target_directory_def)

lemma sort_key_Nil_iff: "sort_key f xs = [] \<longleftrightarrow> xs = []"
  using set_sort[of f xs] set_empty by metis

lemma cleanup_error2:
  assumes "cutoff_of (clock w (ticks w)) n = Inr c1"
    and "candidates c1 (glob (target_directory directory w) w) \<noteq> []"
    and "cutoff_of (clock w (Suc (ticks w))) n = Inl e"
  shows "cleanup_old_wallpapers directory n dry w = (Inl e, w\<lparr>ticks := Suc (Suc (ticks w))\<rparr>)"
  using assms(2,3)
  by (simp add: cleanup_old_wallpapers_def find_old_wallpapers_ok[OF assms(1)]
        target_directory_def sort_key_Nil_iff now_def)

lemma cleanup_run:
  assumes "cutoff_of (clock w (ticks w)) n = Inr c1"
    and "old_files = sort_key snd (candidates c1 (glob (target_directory directory w) w))"
    and "old_files \<noteq> []"
    and "cutoff_of (clock w (Suc (ticks w))) n = Inr c2"
    and "delete_files dry old_files 0
           (print (Announce dry (length old_files) c2) (w\<lparr>ticks := Suc (Suc (ticks w))\<rparr>))
         = (cnt, w4)"
  shows "cleanup_old_wallpapers directory n dry w
       = (Inr cnt,
          if \<not> dry \<and> cnt > 0 then print (DeletedSummary cnt) w4
          else if dry then print (DryRunSummary cnt) w4 else w4)"
  using assms(2-5)
  by (simp add: cleanup_old_wallpapers_def find_old_wallpapers_ok[OF assms(1)]
        target_directory_def now_def del: delete_files.simps)

text \<open>
  Claim C7. A run in simulate mode leaves every directory as it was and makes no call
  of \<^verbatim>\<open>unlink\<close>, whatever the directory, the threshold and the clock, and whether it
  returns or raises.
\<close>

theorem dry_run_never_mutates:
  "dirs (snd (cleanup_old_wallpapers directory n True w)) = dirs w \<and>
   unlink_log (snd (cleanup_old_wallpapers directory n True w)) = unlink_log w"
proof (cases "cutoff_of (clock w (ticks w)) n")
  case (Inl e)
  show ?thesis by (simp add: cleanup_error1[OF Inl])
next
  case (Inr c1)
  let ?old = "sort_key snd (candidates c1 (glob (target_directory directory w) w))"
  show ?thesis
  proof (cases "candidates c1 (glob (target_directory directory w) w) = []")
    case True
    show ?thesis by (simp add: cleanup_empty[OF Inr True])
  next
    case False
    then have ne: "?old \<noteq> []" by (simp add: sort_key_Nil_iff)
    show ?thesis
    proof (cases "cutoff_of (clock w (Suc (ticks w))) n")
      case (Inl e)
      show ?thesis by (simp add: cleanup_error2[OF Inr False Inl])
    next
      case c2: (Inr c2)
      let ?w3 = "print (Announce True (length ?old) c2) (w\<lparr>ticks := Suc (Suc (ticks w))\<rparr>)"
      obtain cnt w4 where d: "delete_files True ?old 0 ?w3 = (cnt, w4)"
        by (cases "delete_files True ?old 0 ?w3")
      from delete_files_dry[OF d] have "dirs w4 = dirs w" "unlink_log w4 = unlink_log w"
        by simp_all
      then show ?thesis
        by (simp add: cleanup_run[OF Inr refl ne c2 d])
    qed
  qed
qed


lemma file_lines_append: "file_lines (a @ b) = file_lines a @ file_lines b"
  by (simp add: file_lines_def map_filter_def)




text \<open>
  Claim C4, as the code has it. For a run with a non-empty candidate list that reaches
  the loop, the output is the announcement, then lines of the loop, one per candidate
  among them and no summary line, then: in simulate mode the summary line with the
  number that would be deleted; in live mode the summary line with the number deleted
  when that number is positive, and nothing when no deletion succeeded.
\<close>

theorem cleanup_summary_line:
  assumes "cutoff_of (clock w (ticks w)) n = Inr c1"
    and "cutoff_of (clock w (Suc (ticks w))) n = Inr c2"
    and "fst (find_old_wallpapers (target_directory directory w) n w) = Inr old_files"
    and "old_files \<noteq> []"
  shows "\<exists>cnt w' body.
           cleanup_old_wallpapers directory n dry_run w = (Inr cnt, w') \<and>
           stdout w' = stdout w @ [Announce dry_run (length old_files) c2] @ body @
             (if dry_run then [DryRunSummary cnt]
              else if 0 < cnt then [DeletedSummary cnt] else []) \<and>
           (\<forall>l\<in>set body. \<not> is_summary l) \<and>
           file_lines body = map (\<lambda>c. (snd (fst c), snd c)) old_files"
proof -
  let ?d = "target_directory directory w"
  have old: "old_files = sort_key snd (candidates c1 (glob ?d w))"
    using assms(3) by (simp add: find_old_wallpapers_ok[OF assms(1)])
  let ?a = "Announce dry_run (length old_files) c2"
  let ?w3 = "print ?a (w\<lparr>ticks := Suc (Suc (ticks w))\<rparr>)"
  obtain cnt w4 where d: "delete_files dry_run old_files 0 ?w3 = (cnt, w4)"
    by (cases "delete_files dry_run old_files 0 ?w3")
  let ?s = "if dry_run then [DryRunSummary cnt] else if 0 < cnt then [DeletedSummary cnt] else []"
  let ?w5 = "if \<not> dry_run \<and> cnt > 0 then print (DeletedSummary cnt) w4
             else if dry_run then print (DryRunSummary cnt) w4 else w4"
  have run: "cleanup_old_wallpapers directory n dry_run w = (Inr cnt, ?w5)"
    by (rule cleanup_run[OF assms(1) old assms(4) assms(2) d])
  have out5: "stdout ?w5 = stdout w4 @ ?s" by simp
  have "\<exists>lines. stdout w4 = (stdout w @ [?a]) @ lines \<and> (\<forall>l\<in>set lines. \<not> is_summary l) \<and>
          file_lines lines = map (\<lambda>c. (snd (fst c), snd c)) old_files"
  proof (cases dry_run)
    case True
    with d have "delete_files True old_files 0 ?w3 = (cnt, w4)" by simp
    from delete_files_dry[OF this] show ?thesis by auto
  next
    case False
    with d have "delete_files False old_files 0 ?w3 = (cnt, w4)" by simp
    from delete_files_live[OF this] show ?thesis by auto
  qed
  then obtain body where b: "stdout w4 = (stdout w @ [?a]) @ body"
      "\<forall>l\<in>set body. \<not> is_summary l"
      "file_lines body = map (\<lambda>c. (snd (fst c), snd c)) old_files"
    by blast
  have "stdout ?w5 = stdout w @ [?a] @ body @ ?s"
    unfolding out5 b(1) by simp
  with run b(2,3) show ?thesis
    by (intro exI[of _ cnt] exI[of _ ?w5] exI[of _ body]) (simp del: print_simps)
qed

lemma cleanup_live_log:
  assumes "cleanup_old_wallpapers directory n False w = (r, w')"
  shows "cwd w' = cwd w \<and>
         (\<exists>new. unlink_log w' = unlink_log w @ new \<and>
            (\<forall>p. listing w' p
                  = filter (\<lambda>e. (p, ename e) \<notin> set (deleted_files new)) (listing w p)) \<and>
            (\<forall>old. fst (find_old_wallpapers (target_directory directory w) n w) = Inr old
                   \<longrightarrow> set (map fst new) \<subseteq> fst ` set old))"
proof (cases "cutoff_of (clock w (ticks w)) n")
  case (Inl e)
  from assms show ?thesis
    unfolding cleanup_error1[OF Inl] by (auto simp: deleted_files_def)
next
  case (Inr c1)
  let ?d = "target_directory directory w"
  let ?old = "sort_key snd (candidates c1 (glob ?d w))"
  have f: "fst (find_old_wallpapers ?d n w) = Inr ?old"
    by (simp add: find_old_wallpapers_ok[OF Inr])
  show ?thesis
  proof (cases "candidates c1 (glob ?d w) = []")
    case True
    from assms show ?thesis
      unfolding cleanup_empty[OF Inr True] by (auto simp: deleted_files_def)
  next
    case False
    then have ne: "?old \<noteq> []" by (simp add: sort_key_Nil_iff)
    show ?thesis
    proof (cases "cutoff_of (clock w (Suc (ticks w))) n")
      case (Inl e)
      from assms show ?thesis
        unfolding cleanup_error2[OF Inr False Inl] by (auto simp: deleted_files_def)
    next
      case c2: (Inr c2)
      let ?w3 = "print (Announce False (length ?old) c2) (w\<lparr>ticks := Suc (Suc (ticks w))\<rparr>)"
      obtain cnt w4 where d: "delete_files False ?old 0 ?w3 = (cnt, w4)"
        by (cases "delete_files False ?old 0 ?w3")
      let ?w5 = "if 0 < cnt then print (DeletedSummary cnt) w4 else w4"
      from assms have w': "w' = ?w5"
        unfolding cleanup_run[OF Inr refl ne c2 d] by auto
      from delete_files_live[OF d] obtain new where
        1: "cwd w4 = cwd w" "unlink_log w4 = unlink_log w @ new" "map fst new = map fst ?old"
        and 2: "\<forall>p. listing w4 p
                  = filter (\<lambda>e. (p, ename e) \<notin> set (deleted_files new)) (listing w p)"
        by auto
      have a: "cwd w' = cwd w" using 1(1) by (simp add: w')
      have b: "unlink_log w' = unlink_log w @ new" using 1(2) by (simp add: w')
      have c: "\<forall>p. listing w' p
                  = filter (\<lambda>e. (p, ename e) \<notin> set (deleted_files new)) (listing w p)"
        using 2 by (simp add: w')
      have e: "\<forall>old. fst (find_old_wallpapers ?d n w) = Inr old
                   \<longrightarrow> set (map fst new) \<subseteq> fst ` set old"
        unfolding f 1(3) by auto
      from a b c e show ?thesis by blast
    qed
  qed
qed

lemma cleanup_reads_clock:
  assumes "cleanup_old_wallpapers directory n dry w = (r, w')"
  shows "ticks w < ticks w'"
proof (cases "cutoff_of (clock w (ticks w)) n")
  case (Inl e)
  from assms show ?thesis unfolding cleanup_error1[OF Inl] by auto
next
  case (Inr c1)
  let ?d = "target_directory directory w"
  let ?old = "sort_key snd (candidates c1 (glob ?d w))"
  show ?thesis
  proof (cases "candidates c1 (glob ?d w) = []")
    case True
    from assms show ?thesis unfolding cleanup_empty[OF Inr True] by auto
  next
    case False
    then have ne: "?old \<noteq> []" by (simp add: sort_key_Nil_iff)
    show ?thesis
    proof (cases "cutoff_of (clock w (Suc (ticks w))) n")
      case (Inl e)
      from assms show ?thesis unfolding cleanup_error2[OF Inr False Inl] by auto
    next
      case c2: (Inr c2)
      let ?w3 = "print (Announce dry (length ?old) c2) (w\<lparr>ticks := Suc (Suc (ticks w))\<rparr>)"
      obtain cnt w4 where d: "delete_files dry ?old 0 ?w3 = (cnt, w4)"
        by (cases "delete_files dry ?old 0 ?w3")
      have "ticks w4 = ticks ?w3 + length ?old"
      proof (cases dry)
        case True
        with d have "delete_files True ?old 0 ?w3 = (cnt, w4)" by simp
        from delete_files_dry[OF this] show ?thesis by simp
      next
        case False
        with d have "delete_files False ?old 0 ?w3 = (cnt, w4)" by simp
        from delete_files_live[OF this] show ?thesis by simp
      qed
      with assms show ?thesis
        unfolding cleanup_run[OF Inr refl ne c2 d] by (auto split: if_splits)
    qed
  qed
qed

text \<open>
  Claim C8. Run the orchestrator twice in live mode on the same directory with the same
  threshold, nothing else touching the directory. The candidates of the second run are
  files of that directory that remain after the first run, none of them is a file the
  first run deleted, and no file the second run deletes was deleted by the first.
\<close>

theorem second_run_deletes_nothing_twice:
  assumes "cleanup_old_wallpapers directory n False w = (r1, w1)"
    and "cleanup_old_wallpapers directory n False w1 = (r2, w2)"
    and "fst (find_old_wallpapers (target_directory directory w1) n w1) = Inr candidates2"
  shows "target_directory directory w1 = target_directory directory w \<and>
         (\<forall>c\<in>set candidates2.
            fst (fst c) = target_directory directory w \<and>
            snd (fst c) \<in> ename ` set (listing w1 (target_directory directory w))) \<and>
         (\<forall>c\<in>set candidates2.
            fst c \<notin> set (deleted_files (drop (length (unlink_log w)) (unlink_log w1)))) \<and>
         set (deleted_files (drop (length (unlink_log w1)) (unlink_log w2)))
           \<inter> set (deleted_files (drop (length (unlink_log w)) (unlink_log w1))) = {}"
proof -
  let ?d = "target_directory directory w"
  from cleanup_live_log[OF assms(1)] obtain new1 where
    1: "cwd w1 = cwd w" "unlink_log w1 = unlink_log w @ new1"
       "\<forall>p. listing w1 p = filter (\<lambda>e. (p, ename e) \<notin> set (deleted_files new1)) (listing w p)"
    by blast
  have d: "target_directory directory w1 = ?d"
    using 1(1) by (simp add: target_directory_def split: option.splits)
  from cleanup_live_log[OF assms(2)] assms(3) obtain new2 where
    2: "unlink_log w2 = unlink_log w1 @ new2" "set (map fst new2) \<subseteq> fst ` set candidates2"
    by blast
  have n1: "drop (length (unlink_log w)) (unlink_log w1) = new1" by (simp add: 1(2))
  have n2: "drop (length (unlink_log w1)) (unlink_log w2) = new2" by (simp add: 2(1))
  obtain c1 where c1: "cutoff_of (clock w1 (ticks w1)) n = Inr c1"
    using assms(3) find_old_wallpapers_error[of w1 n _ "target_directory directory w1"]
    by (cases "cutoff_of (clock w1 (ticks w1)) n") auto
  have "candidates2 = sort_key snd (candidates c1 (glob ?d w1))"
    using assms(3) by (simp add: find_old_wallpapers_ok[OF c1] d)
  then have cands: "set candidates2 = set (candidates c1 (glob ?d w1))"
    by (simp only: set_sort)
  have a: "\<forall>c\<in>set candidates2. fst (fst c) = ?d \<and> snd (fst c) \<in> ename ` set (listing w1 ?d)"
    unfolding cands set_candidates_glob by auto
  have b: "\<forall>c\<in>set candidates2. fst c \<notin> set (deleted_files new1)"
  proof
    fix c assume "c \<in> set candidates2"
    then obtain e where e: "fst c = (?d, ename e)" "e \<in> set (listing w1 ?d)"
      unfolding cands set_candidates_glob by auto
    from e(2) 1(3) have "(?d, ename e) \<notin> set (deleted_files new1)" by simp
    with e(1) show "fst c \<notin> set (deleted_files new1)" by simp
  qed
  have "set (deleted_files new2) \<subseteq> set (map fst new2)"
    by (auto simp: deleted_files_def)
  with 2(2) have "set (deleted_files new2) \<subseteq> fst ` set candidates2" by simp
  with b have c: "set (deleted_files new2) \<inter> set (deleted_files new1) = {}"
    by blast
  show ?thesis
    unfolding n1 n2 using d a b c by blast
qed

text \<open>
  Claim C9. Every call of the orchestrator reads the clock (\<open>cleanup_reads_clock\<close>), so
  a run that leaves the number of clock readings as it was has not called it. The entry
  point exits with status 1 without calling the orchestrator exactly when a directory
  is given that does not exist; it then prints the one line that says so and touches
  nothing else. When no directory is given, or the one given exists, and the
  orchestrator returns a count, whatever the count and however many deletions failed,
  the exit status is 0.
\<close>

theorem main_exit_status:
  "((fst (main a w) = 1 \<and> ticks (snd (main a w)) = ticks w)
      = (\<exists>d. arg_directory a = Some d \<and> \<not> path_exists w d)) \<and>
   (\<forall>d. arg_directory a = Some d \<and> \<not> path_exists w d
        \<longrightarrow> main a w = (1, print (DirMissing d) w)) \<and>
   (\<forall>cnt w1. (arg_directory a = None \<or> (\<exists>d. arg_directory a = Some d \<and> path_exists w d)) \<and>
        cleanup_old_wallpapers (arg_directory a) (arg_max_age a) (arg_dry_run a) w = (Inr cnt, w1)
        \<longrightarrow> fst (main a w) = 0 \<and>
            snd (main a w) = (if arg_quiet a then print (Count cnt) w1 else w1))"
proof -
  obtain r w1 where c: "cleanup_old_wallpapers (arg_directory a) (arg_max_age a) (arg_dry_run a) w
      = (r, w1)"
    by (cases "cleanup_old_wallpapers (arg_directory a) (arg_max_age a) (arg_dry_run a) w")
  from cleanup_reads_clock[OF c] have t: "ticks w < ticks w1" .
  have rc: "ticks (snd (run_cleanup a w)) \<noteq> ticks w"
    using t by (cases r) (simp_all add: run_cleanup_def c)
  have rs: "\<And>cnt. r = Inr cnt \<Longrightarrow>
      run_cleanup a w = (0, if arg_quiet a then print (Count cnt) w1 else w1)"
    by (simp add: run_cleanup_def c)
  let ?A = "\<exists>d. arg_directory a = Some d \<and> \<not> path_exists w d"
  have isA: "\<And>d. arg_directory a = Some d \<Longrightarrow> \<not> path_exists w d
      \<Longrightarrow> main a w = (1, print (DirMissing d) w)"
    by (simp add: main_def)
  have notA: "\<not> ?A \<Longrightarrow> main a w = run_cleanup a w"
    by (auto simp: main_def split: option.splits)
  have 1: "(fst (main a w) = 1 \<and> ticks (snd (main a w)) = ticks w) = ?A"
  proof (cases ?A)
    case True
    then obtain d where "arg_directory a = Some d" "\<not> path_exists w d" by blast
    from isA[OF this] True show ?thesis by simp
  next
    case False
    from notA[OF False] rc False show ?thesis by simp
  qed
  have 2: "\<forall>d. arg_directory a = Some d \<and> \<not> path_exists w d
        \<longrightarrow> main a w = (1, print (DirMissing d) w)"
    using isA by blast
  have 3: "\<forall>cnt w1. (arg_directory a = None \<or> (\<exists>d. arg_directory a = Some d \<and> path_exists w d)) \<and>
        cleanup_old_wallpapers (arg_directory a) (arg_max_age a) (arg_dry_run a) w = (Inr cnt, w1)
        \<longrightarrow> fst (main a w) = 0 \<and>
            snd (main a w) = (if arg_quiet a then print (Count cnt) w1 else w1)"
  proof (intro allI impI, elim conjE)
    fix cnt w1'
    assume ex: "arg_directory a = None \<or> (\<exists>d. arg_directory a = Some d \<and> path_exists w d)"
      and c': "cleanup_old_wallpapers (arg_directory a) (arg_max_age a) (arg_dry_run a) w
                = (Inr cnt, w1')"
    from ex have "\<not> ?A" by auto
    from notA[OF this] have m: "main a w = run_cleanup a w" .
    from c c' have "r = Inr cnt" "w1 = w1'" by simp_all
    with rs[of cnt] show "fst (main a w) = 0 \<and>
            snd (main a w) = (if arg_quiet a then print (Count cnt) w1' else w1')"
      by (simp add: m)
  qed
  from 1 2 3 show ?thesis by (intro conjI)
qed

section \<open>The orchestrator and the entry point on the examples\<close>

lemmas eval_loop = now_def print_def unlink_def unlink_outcome_def days_between_def
  usec_per_day_def datetime_ymd_def file_line_def

lemma protected_cutoffs:
  "cutoff_of (clock protected_world (ticks protected_world)) 30
     = Inr (ymd2ord 2024 3 25, 43200000000)"
  "cutoff_of (clock protected_world (Suc (ticks protected_world))) 30
     = Inr (ymd2ord 2024 3 25, 43200000000)"
  by (simp_all add: protected_world_def world_at_def eval_cutoff)

lemma protected_target: "target_directory None protected_world = ''/pictures''"
  by (simp add: target_directory_def protected_world_def world_at_def)

lemma protected_candidates:
  "sort_key snd (candidates (ymd2ord 2024 3 25, 43200000000) (glob ''/pictures'' protected_world))
     = [((''/pictures'', ''wallpaper-laptop-2020-01-01.png''), datetime_ymd 2020 1 1)]"
  by (simp add: protected_world_def eval_world candidates_def
        parse_laptop_2020 datetime_ymd_def eval_cutoff)

lemma protected_find:
  "fst (find_old_wallpapers ''/pictures'' 30 protected_world)
     = Inr [((''/pictures'', ''wallpaper-laptop-2020-01-01.png''), datetime_ymd 2020 1 1)]"
  by (simp add: find_old_wallpapers_ok[OF protected_cutoffs(1)] protected_candidates)

lemma protected_cleanup:
  "fst (cleanup_old_wallpapers None 30 False protected_world) = Inr 0"
  "stdout (snd (cleanup_old_wallpapers None 30 False protected_world))
     = [Announce False 1 (ymd2ord 2024 3 25, 43200000000),
        FileLine ''wallpaper-laptop-2020-01-01.png'' (datetime_ymd 2020 1 1) 1575,
        DeleteError ''wallpaper-laptop-2020-01-01.png'' EACCES]"
proof -
  let ?old = "[((''/pictures'', ''wallpaper-laptop-2020-01-01.png''), datetime_ymd 2020 1 1)]"
  let ?w3 = "print (Announce False (length ?old) (ymd2ord 2024 3 25, 43200000000))
               (protected_world\<lparr>ticks := Suc (Suc (ticks protected_world))\<rparr>)"
  let ?X = "delete_files False ?old 0 ?w3"
  have d: "?X = (fst ?X, snd ?X)" by simp
  have 1: "fst ?X = 0"
    by (simp add: protected_world_def eval_world eval_loop Let_def)
  have 2: "stdout (snd ?X)
     = [Announce False 1 (ymd2ord 2024 3 25, 43200000000),
        FileLine ''wallpaper-laptop-2020-01-01.png'' (datetime_ymd 2020 1 1) 1575,
        DeleteError ''wallpaper-laptop-2020-01-01.png'' EACCES]"
    by (simp add: protected_world_def eval_world eval_loop eval_cutoff Let_def)
  have old: "?old = sort_key snd (candidates (ymd2ord 2024 3 25, 43200000000)
                 (glob (target_directory None protected_world) protected_world))"
    by (simp only: protected_target protected_candidates)
  have ne: "?old \<noteq> []" by simp
  note run = cleanup_run[OF protected_cutoffs(1) old ne protected_cutoffs(2) d]
  show "fst (cleanup_old_wallpapers None 30 False protected_world) = Inr 0"
    using 1 by (simp add: run)
  show "stdout (snd (cleanup_old_wallpapers None 30 False protected_world))
     = [Announce False 1 (ymd2ord 2024 3 25, 43200000000),
        FileLine ''wallpaper-laptop-2020-01-01.png'' (datetime_ymd 2020 1 1) 1575,
        DeleteError ''wallpaper-laptop-2020-01-01.png'' EACCES]"
    using 1 2 by (simp add: run)
qed

text \<open>
  The claim as stated fails in live mode when no deletion succeeds: the run prints the
  announcement, the line of the file and the warning, and no summary line.
\<close>

theorem cleanup_no_summary_counterexample:
  "fst (find_old_wallpapers ''/pictures'' 30 protected_world)
     = Inr [((''/pictures'', ''wallpaper-laptop-2020-01-01.png''), datetime_ymd 2020 1 1)]
   \<and> fst (cleanup_old_wallpapers None 30 False protected_world) = Inr 0
   \<and> stdout (snd (cleanup_old_wallpapers None 30 False protected_world))
     = [Announce False 1 (ymd2ord 2024 3 25, 43200000000),
        FileLine ''wallpaper-laptop-2020-01-01.png'' (datetime_ymd 2020 1 1) 1575,
        DeleteError ''wallpaper-laptop-2020-01-01.png'' EACCES]"
  by (intro conjI protected_find protected_cleanup)

text \<open>
  Claim C3 fails on the code. With the quiet option set the orchestrator prints as it
  always does, and the entry point prints the count after it: on an empty directory the
  output is the line that no old files were found, then the count.
\<close>

theorem main_quiet_output:
  "fst (main \<lparr>arg_max_age = 30, arg_directory = None, arg_dry_run = False, arg_quiet = True\<rparr>
          (world_at (ymd2ord 2024 4 24, 43200000000) [])) = 0
   \<and> stdout (snd (main \<lparr>arg_max_age = 30, arg_directory = None, arg_dry_run = False,
                         arg_quiet = True\<rparr>
                   (world_at (ymd2ord 2024 4 24, 43200000000) [])))
       = [NoOldFiles 30, Count 0]"
proof -
  let ?w = "world_at (ymd2ord 2024 4 24, 43200000000) []"
  have c: "cutoff_of (clock ?w (ticks ?w)) 30 = Inr (ymd2ord 2024 3 25, 43200000000)"
    by (simp add: world_at_def eval_cutoff)
  have e: "candidates (ymd2ord 2024 3 25, 43200000000) (glob (target_directory None ?w) ?w) = []"
    by (simp add: target_directory_def eval_world candidates_def)
  show ?thesis
    by (simp add: main_def run_cleanup_def cleanup_empty[OF c e]) (simp add: world_at_def)
qed

lemma cleanup_frame:
  assumes "cleanup_old_wallpapers directory n dry w = (r, w')"
  shows "clock w' = clock w \<and> cwd w' = cwd w"
proof (cases "cutoff_of (clock w (ticks w)) n")
  case (Inl e)
  from assms show ?thesis unfolding cleanup_error1[OF Inl] by auto
next
  case (Inr c1)
  let ?d = "target_directory directory w"
  let ?old = "sort_key snd (candidates c1 (glob ?d w))"
  show ?thesis
  proof (cases "candidates c1 (glob ?d w) = []")
    case True
    from assms show ?thesis unfolding cleanup_empty[OF Inr True] by auto
  next
    case False
    then have ne: "?old \<noteq> []" by (simp add: sort_key_Nil_iff)
    show ?thesis
    proof (cases "cutoff_of (clock w (Suc (ticks w))) n")
      case (Inl e)
      from assms show ?thesis unfolding cleanup_error2[OF Inr False Inl] by auto
    next
      case c2: (Inr c2)
      let ?w3 = "print (Announce dry (length ?old) c2) (w\<lparr>ticks := Suc (Suc (ticks w))\<rparr>)"
      obtain cnt w4 where d: "delete_files dry ?old 0 ?w3 = (cnt, w4)"
        by (cases "delete_files dry ?old 0 ?w3")
      have "clock w4 = clock ?w3 \<and> cwd w4 = cwd ?w3"
      proof (cases dry)
        case True
        with d have "delete_files True ?old 0 ?w3 = (cnt, w4)" by simp
        from delete_files_dry[OF this] show ?thesis by simp
      next
        case False
        with d have "delete_files False ?old 0 ?w3 = (cnt, w4)" by simp
        from delete_files_live[OF this] show ?thesis by simp
      qed
      with assms show ?thesis
        unfolding cleanup_run[OF Inr refl ne c2 d] by (auto split: if_splits)
    qed
  qed
qed

lemma mixed_cutoffs:
  "cutoff_of (clock mixed_world (ticks mixed_world)) 30
     = Inr (ymd2ord 2024 3 25, 43200000000)"
  "cutoff_of (clock mixed_world (Suc (ticks mixed_world))) 30
     = Inr (ymd2ord 2024 3 25, 43200000000)"
  by (simp_all add: mixed_world_def world_at_def eval_cutoff)

lemma mixed_target: "target_directory None mixed_world = ''/pictures''"
  by (simp add: target_directory_def mixed_world_def world_at_def)

lemma parse_a_2019:
  "parse_date_from_filename ''wallpaper-a-2019-01-01.png'' = Inr (Some (datetime_ymd 2019 1 1))"
  using parse_eval[of "''a''" "''2019''" "''01''" "''01''" "[]"]
  by (simp add: eval_date)

lemma mixed_find:
  "fst (find_old_wallpapers (target_directory None mixed_world) 30 mixed_world)
     = Inr [((''/pictures'', ''wallpaper-a-2019-01-01.png''), datetime_ymd 2019 1 1),
            ((''/pictures'', ''wallpaper-laptop-2020-01-01.png''), datetime_ymd 2020 1 1)]"
  unfolding mixed_target
  by (simp add: find_old_wallpapers_ok[OF mixed_cutoffs(1)])
     (simp add: mixed_world_def eval_world candidates_def parse_laptop_2020 parse_a_2019
        datetime_ymd_def eval_cutoff)


theorem cleanup_summary_line_witness:
  "cutoff_of (clock mixed_world (ticks mixed_world)) 30 = Inr (ymd2ord 2024 3 25, 43200000000) \<and>
   cutoff_of (clock mixed_world (Suc (ticks mixed_world))) 30
     = Inr (ymd2ord 2024 3 25, 43200000000) \<and>
   fst (find_old_wallpapers (target_directory None mixed_world) 30 mixed_world)
     = Inr [((''/pictures'', ''wallpaper-a-2019-01-01.png''), datetime_ymd 2019 1 1),
            ((''/pictures'', ''wallpaper-laptop-2020-01-01.png''), datetime_ymd 2020 1 1)] \<and>
   (\<exists>cnt w' body.
      cleanup_old_wallpapers None 30 True mixed_world = (Inr cnt, w') \<and>
      stdout w' = stdout mixed_world @ [Announce True 2 (ymd2ord 2024 3 25, 43200000000)] @ body
                    @ [DryRunSummary cnt] \<and>
      file_lines body = [(''wallpaper-a-2019-01-01.png'', datetime_ymd 2019 1 1),
                         (''wallpaper-laptop-2020-01-01.png'', datetime_ymd 2020 1 1)])"
proof -
  have ne: "[((''/pictures'', ''wallpaper-a-2019-01-01.png''), datetime_ymd 2019 1 1),
            ((''/pictures'', ''wallpaper-laptop-2020-01-01.png''), datetime_ymd 2020 1 1)] \<noteq> []"
    by simp
  let ?old = "[((''/pictures'', ''wallpaper-a-2019-01-01.png''), datetime_ymd 2019 1 1),
            ((''/pictures'', ''wallpaper-laptop-2020-01-01.png''), datetime_ymd 2020 1 1)]"
  from cleanup_summary_line[OF mixed_cutoffs mixed_find ne, of True]
  obtain cnt w' body where
    a: "cleanup_old_wallpapers None 30 True mixed_world = (Inr cnt, w')"
    and b: "stdout w' = stdout mixed_world
              @ [Announce True (length ?old) (ymd2ord 2024 3 25, 43200000000)] @ body @
             (if True then [DryRunSummary cnt]
              else if 0 < cnt then [DeletedSummary cnt] else [])"
    and c: "file_lines body = map (\<lambda>c. (snd (fst c), snd c)) ?old"
    by blast
  from b have "stdout w' = stdout mixed_world
       @ [Announce True 2 (ymd2ord 2024 3 25, 43200000000)] @ body @ [DryRunSummary cnt]"
    by simp
  moreover from c have
    "file_lines body = [(''wallpaper-a-2019-01-01.png'', datetime_ymd 2019 1 1),
                         (''wallpaper-laptop-2020-01-01.png'', datetime_ymd 2020 1 1)]"
    by simp
  ultimately have "\<exists>cnt w' body.
      cleanup_old_wallpapers None 30 True mixed_world = (Inr cnt, w') \<and>
      stdout w' = stdout mixed_world @ [Announce True 2 (ymd2ord 2024 3 25, 43200000000)] @ body
                    @ [DryRunSummary cnt] \<and>
      file_lines body = [(''wallpaper-a-2019-01-01.png'', datetime_ymd 2019 1 1),
                         (''wallpaper-laptop-2020-01-01.png'', datetime_ymd 2020 1 1)]"
    using a by (intro exI[of _ cnt] exI[of _ w'] exI[of _ body] conjI)
  with mixed_cutoffs mixed_find show ?thesis by (intro conjI)
qed

theorem dry_run_never_mutates_witness:
  "dirs (snd (cleanup_old_wallpapers None 30 True mixed_world)) = dirs mixed_world \<and>
   unlink_log (snd (cleanup_old_wallpapers None 30 True mixed_world)) = unlink_log mixed_world"
  by (rule dry_run_never_mutates)

theorem second_run_deletes_nothing_twice_witness:
  "set (deleted_files
          (drop (length (unlink_log (snd (cleanup_old_wallpapers None 30 False mixed_world))))
             (unlink_log (snd (cleanup_old_wallpapers None 30 False
                (snd (cleanup_old_wallpapers None 30 False mixed_world)))))))
     \<inter> set (deleted_files
          (drop (length (unlink_log mixed_world))
             (unlink_log (snd (cleanup_old_wallpapers None 30 False mixed_world))))) = {}"
proof -
  let ?X = "cleanup_old_wallpapers None 30 False mixed_world"
  let ?Y = "cleanup_old_wallpapers None 30 False (snd ?X)"
  have h1: "?X = (fst ?X, snd ?X)" and h2: "?Y = (fst ?Y, snd ?Y)" by simp_all
  from cleanup_frame[OF h1] have "clock (snd ?X) = clock mixed_world" by simp
  then have c: "cutoff_of (clock (snd ?X) (ticks (snd ?X))) 30
      = Inr (ymd2ord 2024 3 25, 43200000000)"
    by (simp add: mixed_world_def world_at_def eval_cutoff)
  have h3: "fst (find_old_wallpapers (target_directory None (snd ?X)) 30 (snd ?X))
      = Inr (sort_key snd (candidates (ymd2ord 2024 3 25, 43200000000)
               (glob (target_directory None (snd ?X)) (snd ?X))))"
    by (simp add: find_old_wallpapers_ok[OF c])
  from second_run_deletes_nothing_twice[OF h1 h2 h3] show ?thesis by blast
qed

theorem main_exit_status_witness:
  "main \<lparr>arg_max_age = 5, arg_directory = Some ''/nonexistent'', arg_dry_run = False,
         arg_quiet = False\<rparr> scenario_world
     = (1, print (DirMissing ''/nonexistent'') scenario_world)"
proof -
  let ?a = "\<lparr>arg_max_age = 5, arg_directory = Some ''/nonexistent'', arg_dry_run = False,
         arg_quiet = False\<rparr>"
  have "arg_directory ?a = Some ''/nonexistent'' \<and> \<not> path_exists scenario_world ''/nonexistent''"
    by (simp add: path_exists_def scenario_world_def world_at_def)
  with main_exit_status[of ?a scenario_world] show ?thesis by blast
qed

end
